theory Spec2Isabelle
  imports Complex_Main "HOL-Library.Log_Nat"
begin

section \<open>JavaScript values, errors and loops\<close>

text \<open>
  The generator of \<^verbatim>\<open>dungeonGen.js\<close> is embedded method by method. JavaScript numbers
  that hold coordinates, counts and indices are integers here (\<open>int\<close>). The random
  source is where the rounding of IEEE doubles matters: the next seed, the quotient
  \<^verbatim>\<open>seed / 233280\<close> and its product with the size of the range are rounded to
  binary64 as JavaScript rounds them. \<^verbatim>\<open>gridCount / 2\<close> is exact as a double. Reading a
  property of \<^verbatim>\<open>undefined\<close> raises a \<^verbatim>\<open>TypeError\<close>; it is a value of the model.
  Logging (\<^verbatim>\<open>printToLog\<close>, \<^verbatim>\<open>console.log\<close>) is left out.
\<close>

datatype error = TypeError

definition bindE :: "error + 'a \<Rightarrow> ('a \<Rightarrow> error + 'b) \<Rightarrow> error + 'b" where
  "bindE m f = (case m of Inl e \<Rightarrow> Inl e | Inr v \<Rightarrow> f v)"

text \<open>\<^verbatim>\<open>arr[i]\<close> on a dense array: \<open>None\<close> is \<^verbatim>\<open>undefined\<close>.\<close>

definition nthE :: "'a list \<Rightarrow> int \<Rightarrow> 'a option" where
  "nthE xs i = (if 0 \<le> i \<and> i < int (length xs) then Some (xs ! nat i) else None)"

text \<open>Using a value that may be \<^verbatim>\<open>undefined\<close> as an object.\<close>

definition deref :: "'a option \<Rightarrow> error + 'a" where
  "deref v = (case v of None \<Rightarrow> Inl TypeError | Some a \<Rightarrow> Inr a)"

text \<open>\<^verbatim>\<open>for (let i = a; i < n; i++) body\<close>, with a bound that the body does not change.\<close>

function forUpto :: "int \<Rightarrow> int \<Rightarrow> (int \<Rightarrow> 's \<Rightarrow> 's) \<Rightarrow> 's \<Rightarrow> 's" where
  "forUpto i n body s = (if i < n then forUpto (i + 1) n body (body i s) else s)"
  by pat_completeness auto
termination
  by (relation "measure (\<lambda>(i, n, body, s). nat (n - i))") auto

declare forUpto.simps [simp del]

text \<open>The same loop when the body can throw: the first error leaves the loop.\<close>

function forUptoE :: "int \<Rightarrow> int \<Rightarrow> (int \<Rightarrow> 's \<Rightarrow> error + 's) \<Rightarrow> 's \<Rightarrow> error + 's" where
  "forUptoE i n body s =
     (if i < n then (case body i s of Inl e \<Rightarrow> Inl e | Inr s' \<Rightarrow> forUptoE (i + 1) n body s')
      else Inr s)"
  by pat_completeness auto
termination
  by (relation "measure (\<lambda>(i, n, body, s). nat (n - i))") auto

declare forUptoE.simps [simp del]

text \<open>\<^verbatim>\<open>for (const a of arr) body\<close> over an array the body does not change.\<close>

fun forEachE :: "('a \<Rightarrow> 's \<Rightarrow> error + 's) \<Rightarrow> 'a list \<Rightarrow> 's \<Rightarrow> error + 's" where
  "forEachE body [] s = Inr s"
| "forEachE body (a # as) s =
     (case body a s of Inl e \<Rightarrow> Inl e | Inr s' \<Rightarrow> forEachE body as s')"

text \<open>JavaScript's \<^verbatim>\<open>a % b\<close> on integers: the sign of the result is the dividend's.\<close>

definition jsRem :: "int \<Rightarrow> int \<Rightarrow> int" where
  "jsRem a b = (if a < 0 then - ((- a) mod \<bar>b\<bar>) else a mod \<bar>b\<bar>)"

section \<open>Data model\<close>

type_synonym coord = "int \<times> int"

text \<open>
  \<^verbatim>\<open>tile.type\<close> is \<^verbatim>\<open>0\<close> for a wall, a positive number for a point marker or a room,
  and one of the strings \<^verbatim>\<open>'P'\<close>, \<^verbatim>\<open>'ENTRY'\<close>, \<^verbatim>\<open>'EXIT'\<close>; no other string is ever
  stored.
\<close>

datatype tileType = Num int | P | ENTRY | EXIT

text \<open>
  \<^verbatim>\<open>type > 0\<close> and \<^verbatim>\<open>type <= 0\<close>: a string that is not numeric converts to
  \<^verbatim>\<open>NaN\<close>, and every comparison with \<^verbatim>\<open>NaN\<close> is false.
\<close>

fun gt0 :: "tileType \<Rightarrow> bool" where
  "gt0 (Num n) = (n > 0)"
| "gt0 _ = False"

fun le0 :: "tileType \<Rightarrow> bool" where
  "le0 (Num n) = (n \<le> 0)"
| "le0 _ = False"

text \<open>
  One column \<^verbatim>\<open>board[x]\<close> is a JavaScript array. \<open>cells\<close> holds its elements
  \<^verbatim>\<open>0 .. length - 1\<close> (\<open>None\<close>: a hole, read as \<^verbatim>\<open>undefined\<close>); \<open>negs\<close> holds the
  properties written under negative keys, the latest first. Writing at or beyond
  \<^verbatim>\<open>length\<close> extends the array and leaves holes; writing under a negative key adds a
  property and leaves \<^verbatim>\<open>length\<close> alone.
\<close>

record column =
  cells :: "tileType option list"
  negs :: "(int \<times> tileType) list"

type_synonym board = "column list"

definition colGet :: "column \<Rightarrow> int \<Rightarrow> tileType option" where
  "colGet c j =
     (if j < 0 then map_of (negs c) j
      else (case nthE (cells c) j of None \<Rightarrow> None | Some v \<Rightarrow> v))"

definition colSet :: "column \<Rightarrow> int \<Rightarrow> tileType \<Rightarrow> column" where
  "colSet c j t =
     (if j < 0 then c\<lparr>negs := (j, t) # negs c\<rparr>
      else if j < int (length (cells c)) then c\<lparr>cells := (cells c)[nat j := Some t]\<rparr>
      else c\<lparr>cells := cells c @ replicate (nat j - length (cells c)) None @ [Some t]\<rparr>)"

text \<open>\<^verbatim>\<open>board[x][y]\<close>: throws when \<^verbatim>\<open>board[x]\<close> is \<^verbatim>\<open>undefined\<close>.\<close>

definition boardGet :: "board \<Rightarrow> int \<Rightarrow> int \<Rightarrow> error + tileType option" where
  "boardGet b i j = (case nthE b i of None \<Rightarrow> Inl TypeError | Some c \<Rightarrow> Inr (colGet c j))"

text \<open>\<^verbatim>\<open>board[x][y].type\<close>: throws as well when the tile is \<^verbatim>\<open>undefined\<close>.\<close>

definition tileTypeAt :: "board \<Rightarrow> int \<Rightarrow> int \<Rightarrow> error + tileType" where
  "tileTypeAt b i j = bindE (boardGet b i j) deref"

text \<open>\<^verbatim>\<open>board[x][y] = { type: t }\<close>.\<close>

definition boardSet :: "board \<Rightarrow> int \<Rightarrow> int \<Rightarrow> tileType \<Rightarrow> error + board" where
  "boardSet b i j t =
     (case nthE b i of None \<Rightarrow> Inl TypeError | Some c \<Rightarrow> Inr (b[nat i := colSet c j t]))"

text \<open>\<^verbatim>\<open>board[x][y].type = t\<close> changes a tile that must exist.\<close>

definition boardSetType :: "board \<Rightarrow> int \<Rightarrow> int \<Rightarrow> tileType \<Rightarrow> error + board" where
  "boardSetType b i j t = bindE (tileTypeAt b i j) (\<lambda>_. boardSet b i j t)"

text \<open>
  \<^verbatim>\<open>[...Array(colCount)].map(() => Array(rowCount).fill().map(() => ({ type: 0 })))\<close>
\<close>

definition newBoard :: "int \<Rightarrow> int \<Rightarrow> board" where
  "newBoard cols rows =
     replicate (nat cols) \<lparr>cells = replicate (nat rows) (Some (Num 0)), negs = []\<rparr>"

record gridObj =
  grid_x :: int
  grid_y :: int
  grid_width :: int
  grid_height :: int
  grid_index :: int

record pointObj =
  point_x :: int
  point_y :: int
  point_gridIndex :: int

text \<open>A room has no \<^verbatim>\<open>type\<close> property (\<open>None\<close>) until it is promoted.\<close>

datatype roomType = RoomENTRY | RoomEXIT

record roomObj =
  room_x :: int
  room_y :: int
  room_width :: int
  room_height :: int
  room_grid :: int
  room_onPoint :: bool
  room_type :: "roomType option"

text \<open>A connection holds two elements read from the point list, each possibly \<^verbatim>\<open>undefined\<close>.\<close>

type_synonym connection = "pointObj option \<times> pointObj option"

record specialPointsObj =
  sp_entry :: "coord option"
  sp_exit :: "coord option"

text \<open>
  The instance. \<open>seed\<close> is the private field \<^verbatim>\<open>#seed\<close> (\<open>None\<close> is \<^verbatim>\<open>null\<close>);
  \<open>mathRandom\<close> stands for the results of the calls of \<^verbatim>\<open>Math.random()\<close> still to come.
\<close>

record dungeon =
  rowCount :: int
  colCount :: int
  board :: board
  roomCountMin :: int
  roomCountMax :: int
  roomCount :: int
  pointLossChance :: int
  roomLossChance :: int
  randomPathMax :: int
  validDungeon :: bool
  minRoomSizeX :: int
  minRoomSizeY :: int
  maxRoomSizeX :: int
  maxRoomSizeY :: int
  gridList :: "gridObj list"
  pointList :: "pointObj list"
  connectionList :: "connection list"
  roomList :: "roomObj list"
  specialPoints :: specialPointsObj
  seed :: "int option"
  mathRandom :: "nat \<Rightarrow> real"

section \<open>IEEE doubles\<close>

text \<open>
  A JavaScript number is a binary64 double, and every arithmetic operation returns the
  double nearest to the exact result, the one with the even significand when two are
  equally near. \<open>nearestEven\<close> is that choice among the integers.
\<close>

definition nearestEven :: "real \<Rightarrow> int" where
  "nearestEven y =
     (let f = \<lfloor>y\<rfloor>
      in if y - of_int f < 1 / 2 then f
         else if y - of_int f > 1 / 2 then f + 1
         else if even f then f else f + 1)"

text \<open>
  The exponent of the binade of \<open>x\<close>: \<open>2 ^ e \<le> \<bar>x\<bar> < 2 ^ (e + 1)\<close>, and \<open>-1022\<close> for
  the subnormal numbers below \<open>2 ^ -1022\<close>.
\<close>

definition expo :: "real \<Rightarrow> int" where
  "expo x = max \<lfloor>log 2 \<bar>x\<bar>\<rfloor> (- 1022)"

text \<open>
  Rounding to binary64: the doubles of the binade of \<open>x\<close> are the multiples of
  \<open>2 ^ (e - 52)\<close>, a significand of 53 bits. The numbers of this program stay far below
  \<open>2 ^ 1024\<close>, where a double overflows; overflow is left out.
\<close>

definition r64 :: "real \<Rightarrow> real" where
  "r64 x = (if x = 0 then 0
            else of_int (nearestEven (x / 2 powi (expo x - 52))) * 2 powi (expo x - 52))"

text \<open>
  The same rounding computed on integers, for a quotient \<open>p / q\<close> with \<open>0 < q\<close>:
  \<open>roundDiv a b\<close> is \<open>nearestEven (a / b)\<close>, \<open>expoQ p q\<close> the exponent of \<open>p / q\<close> for
  \<open>0 < p\<close>, and \<open>r64Q p q\<close> the pair \<open>(m, k)\<close> with \<open>r64 (p / q) = m * 2 ^ k\<close>.
\<close>

definition roundDiv :: "int \<Rightarrow> int \<Rightarrow> int" where
  "roundDiv a b =
     (let f = a div b; r = a mod b
      in if 2 * r < b then f
         else if 2 * r > b then f + 1
         else if even f then f else f + 1)"

definition expoQ :: "int \<Rightarrow> int \<Rightarrow> int" where
  "expoQ p q =
     (let b = bitlen p - bitlen q
      in if (if 0 \<le> b then q * 2 ^ nat b \<le> p else q \<le> p * 2 ^ nat (- b)) then b else b - 1)"

definition r64Q :: "int \<Rightarrow> int \<Rightarrow> int \<times> int" where
  "r64Q p q =
     (if p = 0 then (0, 0)
      else let e = max (expoQ \<bar>p\<bar> q) (- 1022); s = 52 - e
           in (if 0 \<le> s then roundDiv (p * 2 ^ nat s) q else roundDiv p (q * 2 ^ nat (- s)), - s))"

text \<open>\<open>\<lfloor>m * 2 ^ k\<rfloor>\<close>, and \<open>m * 2 ^ k * n\<close> as a quotient of integers.\<close>

definition floorD :: "int \<times> int \<Rightarrow> int" where
  "floorD d = (if 0 \<le> snd d then fst d * 2 ^ nat (snd d) else fst d div 2 ^ nat (- snd d))"

definition scaleD :: "int \<times> int \<Rightarrow> int \<Rightarrow> int \<times> int" where
  "scaleD d n = (if 0 \<le> snd d then (fst d * n * 2 ^ nat (snd d), 1) else (fst d * n, 2 ^ nat (- snd d)))"

text \<open>The double nearest to an integer; it is an integer.\<close>

definition roundInt :: "int \<Rightarrow> int" where
  "roundInt n = floorD (r64Q n 1)"

section \<open>The random source\<close>

text \<open>
  \<^verbatim>\<open>randomInt(min, max)\<close>. Without a seed it consumes the next result of
  \<^verbatim>\<open>Math.random()\<close>; with a seed it advances the linear congruential sequence and
  never calls \<^verbatim>\<open>Math.random()\<close>. The method returns the number; the changed instance
  is returned with it. The seed is a number with an integer value. Each of
  \<^verbatim>\<open>seed * 9301\<close>, \<^verbatim>\<open>... + 49297\<close>, \<^verbatim>\<open>seed / 233280\<close> and \<^verbatim>\<open>rnd * (max - min + 1)\<close> is
  rounded to a double; \<^verbatim>\<open>%\<close> and \<^verbatim>\<open>Math.floor\<close> are exact, and so are \<^verbatim>\<open>max - min + 1\<close>
  and \<^verbatim>\<open>... + min\<close> on the coordinates and counts of this program.
\<close>

definition randomInt :: "dungeon \<Rightarrow> int \<Rightarrow> int \<Rightarrow> int \<times> dungeon" where
  "randomInt this mn mx =
     (case seed this of
        None \<Rightarrow>
          (\<lfloor>r64 (mathRandom this 0 * real_of_int (mx - mn + 1))\<rfloor> + mn,
           this\<lparr>mathRandom := (\<lambda>n. mathRandom this (Suc n))\<rparr>)
      | Some sd \<Rightarrow>
          (let sd' = jsRem \<lfloor>r64 (r64 (real_of_int sd * 9301) + 49297)\<rfloor> 233280;
               rnd = r64 (real_of_int sd' / 233280)
           in (\<lfloor>r64 (rnd * real_of_int (mx - mn + 1))\<rfloor> + mn, this\<lparr>seed := Some sd'\<rparr>)))"

section \<open>Grid partitioner\<close>

text \<open>\<^verbatim>\<open>while (roomCount % 2 !== 0 && roomCount % 3 !== 0) roomCount++\<close>\<close>

function adjustRoomCount :: "int \<Rightarrow> int" where
  "adjustRoomCount r =
     (if jsRem r 2 \<noteq> 0 \<and> jsRem r 3 \<noteq> 0 then adjustRoomCount (r + 1) else r)"
  by pat_completeness auto
termination
  by (relation "measure (\<lambda>r. nat (r mod 2))") (auto simp: jsRem_def split: if_splits, presburger+)

declare adjustRoomCount.simps [simp del]

text \<open>
  \<^verbatim>\<open>#createGrid()\<close>. The method is private and runs on an adjusted room count only, so
  \<^verbatim>\<open>roomCount / 2\<close> and \<^verbatim>\<open>roomCount / 3\<close> are whole numbers where they are used;
  \<^verbatim>\<open>Math.floor\<close> of a quotient of integers is \<open>div\<close>.
\<close>

definition createGrid :: "dungeon \<Rightarrow> dungeon" where
  "createGrid this0 =
     (if jsRem (roomCount this0) 2 = 0 then
        (let otherDivisor = roomCount this0 div 2;
             splitRow = rowCount this0 div 2;
             splitCol = colCount this0 div otherDivisor
         in forUpto 0 otherDivisor (\<lambda>i. forUpto 0 2 (\<lambda>j this.
              this\<lparr>gridList := gridList this @
                [\<lparr>grid_x = i * splitCol, grid_y = j * splitRow,
                  grid_width = splitCol, grid_height = splitRow,
                  grid_index = int (length (gridList this))\<rparr>]\<rparr>)) this0)
      else
        (let otherDivisor = roomCount this0 div 3;
             splitCol = colCount this0 div 3;
             splitRow = rowCount this0 div otherDivisor
         in forUpto 0 otherDivisor (\<lambda>i. forUpto 0 3 (\<lambda>j this.
              this\<lparr>gridList := gridList this @
                [\<lparr>grid_x = j * splitCol, grid_y = i * splitRow,
                  grid_width = splitCol, grid_height = splitRow,
                  grid_index = int (length (gridList this))\<rparr>]\<rparr>)) this0))"

section \<open>Path synthesis\<close>

text \<open>\<^verbatim>\<open>path[path.length - 1]\<close> used as an object: throws on the empty path.\<close>

definition lastE :: "'a list \<Rightarrow> error + 'a" where
  "lastE xs = deref (nthE xs (int (length xs) - 1))"

text \<open>
  \<^verbatim>\<open>#getPath(point1, point2)\<close> on the coordinates of the two points. The bound
  \<^verbatim>\<open>i < Math.abs(d) / 2\<close> of the first loop is \<open>i < (\<bar>d\<bar> + 1) div 2\<close> on integers.
\<close>

definition getPath :: "coord \<Rightarrow> coord \<Rightarrow> error + coord list" where
  "getPath point1 point2 =
     (let startX = fst point1; startY = snd point1;
          endX = fst point2; endY = snd point2;
          xDiff = endX - startX; yDiff = endY - startY
      in if xDiff > yDiff then
           bindE (Inr (forUpto 0 ((\<bar>xDiff\<bar> + 1) div 2)
                    (\<lambda>i path. path @ [if xDiff > 0 then (startX + i, startY)
                                         else (startX - i, startY)]) []))
           (\<lambda>path. bindE
              (if yDiff \<noteq> 0 then
                 forUptoE 1 (\<bar>yDiff\<bar> + 1)
                   (\<lambda>i path. bindE (lastE path)
                      (\<lambda>l. Inr (path @ [if yDiff > 0 then (fst l, startY + i)
                                           else (fst l, startY - i)]))) path
               else Inr path)
           (\<lambda>path. bindE (lastE path)
           (\<lambda>l. Inr (forUpto (fst l) \<bar>endX\<bar>
                    (\<lambda>i path. path @ [if xDiff > 0 then (i + 1, endY)
                                         else (i - 1, endY)]) path))))
         else
           bindE (Inr (forUpto 0 ((\<bar>yDiff\<bar> + 1) div 2)
                    (\<lambda>i path. path @ [if yDiff > 0 then (startX, startY + i)
                                         else (startX, startY - i)]) []))
           (\<lambda>path. bindE
              (if xDiff \<noteq> 0 then
                 forUptoE 1 (\<bar>xDiff\<bar> + 1)
                   (\<lambda>i path. bindE (lastE path)
                      (\<lambda>l. Inr (path @ [if xDiff > 0 then (startX + i, snd l)
                                           else (startX - i, snd l)]))) path
               else Inr path)
           (\<lambda>path. bindE (lastE path)
           (\<lambda>l. Inr (forUpto (snd l) \<bar>endY\<bar>
                    (\<lambda>i path. path @ [if yDiff > 0 then (endX, i + 1)
                                         else (endX, i - 1)]) path)))))"

text \<open>\<^verbatim>\<open>#getPath\<close> on two array elements, either of which may be \<^verbatim>\<open>undefined\<close>.\<close>

definition getPathOf :: "coord option \<Rightarrow> coord option \<Rightarrow> error + coord list" where
  "getPathOf p1 p2 = bindE (deref p1) (\<lambda>a. bindE (deref p2) (\<lambda>b. getPath a b))"

section \<open>Point and path synthesizer\<close>

text \<open>
  A loop \<^verbatim>\<open>for (let i = 0; i < arr.length; i++) { const a = arr[i]; ... }\<close> whose body
  leaves \<^verbatim>\<open>arr\<close> alone runs over the elements of \<^verbatim>\<open>arr\<close>, paired with their index
  where the body uses it.
\<close>

definition indexed :: "'a list \<Rightarrow> (int \<times> 'a) list" where
  "indexed xs = zip (map int [0..<length xs]) xs"

definition getAdjacentGrids :: "gridObj list \<Rightarrow> gridObj \<Rightarrow> gridObj list" where
  "getAdjacentGrids gl grid =
     filter (\<lambda>selectedGrid.
       let sameX = (grid_x selectedGrid = grid_x grid);
           sameY = (grid_y selectedGrid = grid_y grid);
           nextX = (grid_x selectedGrid = grid_x grid + grid_width grid);
           nextY = (grid_y selectedGrid = grid_y grid + grid_height grid)
       in (sameX \<and> nextY) \<or> (sameY \<and> nextX)) gl"

definition pickPoint :: "int \<times> gridObj \<Rightarrow> dungeon \<Rightarrow> dungeon" where
  "pickPoint ig this0 =
     (let i = fst ig; grid = snd ig;
          minX = grid_x grid + minRoomSizeX this0;
          maxX = grid_x grid + grid_width grid - minRoomSizeX this0;
          minY = grid_y grid + minRoomSizeY this0;
          maxY = grid_y grid + grid_height grid - minRoomSizeY this0;
          rx = randomInt this0 minX maxX;
          ry = randomInt (snd rx) minY maxY;
          point = \<lparr>point_x = fst rx, point_y = fst ry, point_gridIndex = i\<rparr>
      in (snd ry)\<lparr>pointList := pointList (snd ry) @ [point]\<rparr>)"

definition placePoint :: "pointObj \<Rightarrow> board \<Rightarrow> error + board" where
  "placePoint point b = boardSet b (point_x point) (point_y point) (Num (point_gridIndex point + 1))"

definition connectGrids :: "gridObj \<Rightarrow> gridObj \<Rightarrow> dungeon \<Rightarrow> dungeon" where
  "connectGrids grid adjacentGrid this0 =
     (let point1 = nthE (pointList this0) (grid_index grid);
          point2 = nthE (pointList this0) (grid_index adjacentGrid);
          roll = randomInt this0 1 100;
          this = snd roll
      in if fst roll > pointLossChance this
         then this\<lparr>connectionList := connectionList this @ [(point1, point2)]\<rparr>
         else this)"

definition pointXY :: "pointObj \<Rightarrow> coord" where
  "pointXY p = (point_x p, point_y p)"

definition stampPath :: "connection \<Rightarrow> board \<Rightarrow> error + board" where
  "stampPath connection b =
     bindE (getPathOf (map_option pointXY (fst connection)) (map_option pointXY (snd connection)))
       (\<lambda>path. forEachE (\<lambda>point b. boardSet b (fst point) (snd point) P) path b)"

text \<open>\<^verbatim>\<open>#createPaths()\<close>: its four loops in order.\<close>

definition createPaths :: "dungeon \<Rightarrow> error + dungeon" where
  "createPaths this0 =
     (let this1 = fold pickPoint (indexed (gridList this0)) this0
      in bindE (forEachE placePoint (pointList this1) (board this1))
      (\<lambda>b. let this2 = this1\<lparr>board := b\<rparr>;
                this3 = fold (\<lambda>grid this.
                          fold (connectGrids grid) (getAdjacentGrids (gridList this) grid) this)
                          (gridList this2) this2
            in bindE (forEachE stampPath (connectionList this3) (board this3))
      (\<lambda>b. Inr (this3\<lparr>board := b\<rparr>))))"

section \<open>Room placer\<close>

text \<open>The local variables of the placement loop of \<^verbatim>\<open>#createRooms\<close>.\<close>

record candidate =
  validPosition :: bool
  attempts :: int
  onPoint :: bool
  roomWidth :: int
  roomHeight :: int
  roomX :: int
  roomY :: int

text \<open>
  The inner loop over \<open>y\<close> for one column \<open>x\<close> of the candidate; the state is
  \<open>(validPosition, onPoint)\<close>. Each \<^verbatim>\<open>break\<close> leaves this loop only.
\<close>

function checkColumn ::
  "dungeon \<Rightarrow> gridObj \<Rightarrow> pointObj option \<Rightarrow> int \<Rightarrow> int \<Rightarrow> int \<Rightarrow> bool \<times> bool \<Rightarrow> error + bool \<times> bool"
where
  "checkColumn this grid point x y yEnd st =
     (if y < yEnd then
        (if x < 0 \<or> x \<ge> colCount this \<or> y < 0 \<or> y \<ge> rowCount this then Inr (False, snd st)
         else case tileTypeAt (board this) x y of
           Inl e \<Rightarrow> Inl e
         | Inr t \<Rightarrow>
             if gt0 t then Inr (False, snd st)
             else if x = grid_x grid \<or> x = grid_x grid + grid_width grid - 1 \<or>
                     y = grid_y grid \<or> y = grid_y grid + grid_height grid - 1
               then Inr (False, snd st)
             else (case point of
                 None \<Rightarrow> Inl TypeError
               | Some p \<Rightarrow>
                   checkColumn this grid point x (y + 1) yEnd
                     (if x = point_x p \<and> y = point_y p then (fst st, True) else st)))
      else Inr st)"
  by pat_completeness auto
termination
  by (relation "measure (\<lambda>(this, grid, point, x, y, yEnd, st). nat (yEnd - y))") auto

declare checkColumn.simps [simp del]

definition checkRoom :: "dungeon \<Rightarrow> gridObj \<Rightarrow> pointObj option \<Rightarrow> candidate \<Rightarrow> error + bool \<times> bool" where
  "checkRoom this grid point c =
     forUptoE (roomX c) (roomX c + roomWidth c)
       (\<lambda>x st. checkColumn this grid point x (roomY c) (roomY c + roomHeight c) st)
       (True, False)"

text \<open>The four draws that choose a size and a position.\<close>

definition sampleRoom :: "dungeon \<Rightarrow> gridObj \<Rightarrow> candidate \<Rightarrow> candidate \<times> dungeon" where
  "sampleRoom this0 grid c =
     (let rw = randomInt this0 (minRoomSizeX this0) (maxRoomSizeX this0);
          rh = randomInt (snd rw) (minRoomSizeY this0) (maxRoomSizeY this0);
          rx = randomInt (snd rh) (grid_x grid) (grid_x grid + grid_width grid - fst rw);
          ry = randomInt (snd rx) (grid_y grid) (grid_y grid + grid_height grid - fst rh)
      in (c\<lparr>roomWidth := fst rw, roomHeight := fst rh, roomX := fst rx, roomY := fst ry\<rparr>, snd ry))"

text \<open>\<^verbatim>\<open>while (!validPosition && attempts < 1000) { ... }\<close>\<close>

function placeLoop ::
  "gridObj \<Rightarrow> pointObj option \<Rightarrow> candidate \<times> dungeon \<Rightarrow> error + candidate \<times> dungeon"
where
  "placeLoop grid point cs =
     (if \<not> validPosition (fst cs) \<and> attempts (fst cs) < 1000 then
        (case checkRoom (snd cs) grid point (fst cs) of
           Inl e \<Rightarrow> Inl e
         | Inr st \<Rightarrow>
             if \<not> fst st \<or> \<not> snd st then
               placeLoop grid point
                 (sampleRoom (snd cs) grid
                    ((fst cs)\<lparr>validPosition := False, attempts := attempts (fst cs) + 1,
                              onPoint := False\<rparr>))
             else Inr ((fst cs)\<lparr>validPosition := fst st, attempts := attempts (fst cs) + 1,
                                 onPoint := snd st\<rparr>, snd cs))
      else Inr cs)"
  by pat_completeness auto
termination
  by (relation "measure (\<lambda>(grid, point, cs). nat (1000 - attempts (fst cs)))")
     (auto simp: sampleRoom_def Let_def)

declare placeLoop.simps [simp del]

text \<open>\<^verbatim>\<open>arr.filter(pred)\<close> with a predicate that can throw.\<close>

fun filterE :: "('a \<Rightarrow> error + bool) \<Rightarrow> 'a list \<Rightarrow> error + 'a list" where
  "filterE pred [] = Inr []"
| "filterE pred (a # as) =
     (case pred a of
        Inl e \<Rightarrow> Inl e
      | Inr keep \<Rightarrow> (case filterE pred as of
                       Inl e \<Rightarrow> Inl e
                     | Inr r \<Rightarrow> Inr (if keep then a # r else r)))"

text \<open>
  \<^verbatim>\<open>c.point1.gridIndex === grid.index || c.point2.gridIndex === grid.index\<close>:
  the second point is looked at only when the first does not match.
\<close>

definition touchesGrid :: "gridObj \<Rightarrow> connection \<Rightarrow> error + bool" where
  "touchesGrid grid c =
     bindE (deref (fst c)) (\<lambda>p1.
       if point_gridIndex p1 = grid_index grid then Inr True
       else bindE (deref (snd c)) (\<lambda>p2. Inr (point_gridIndex p2 = grid_index grid)))"

text \<open>The two loops that draw the room on the board.\<close>

definition stampRoom :: "board \<Rightarrow> candidate \<Rightarrow> tileType \<Rightarrow> error + board" where
  "stampRoom b c t =
     forUptoE (roomX c) (roomX c + roomWidth c)
       (\<lambda>x. forUptoE (roomY c) (roomY c + roomHeight c) (\<lambda>y b. boardSet b x y t)) b"

text \<open>The body of the loop of \<^verbatim>\<open>#createRooms\<close> over the grids, for grid number \<open>i\<close>.\<close>

definition placeRoom :: "int \<times> gridObj \<Rightarrow> dungeon \<Rightarrow> error + dungeon" where
  "placeRoom ig this0 =
     (let i = fst ig; grid = snd ig;
          point = nthE (filter (\<lambda>p. point_gridIndex p = grid_index grid) (pointList this0)) 0
      in bindE (filterE (touchesGrid grid) (connectionList this0))
      (\<lambda>validConnections.
         if length validConnections = 0 then Inr this0
         else
           bindE (placeLoop grid point
                    (sampleRoom this0 grid
                       \<lparr>validPosition = False, attempts = 0, onPoint = False,
                        roomWidth = 0, roomHeight = 0, roomX = 0, roomY = 0\<rparr>))
           (\<lambda>cs. let c = fst cs;
                      diceRoll = randomInt (snd cs) 1 100;
                      this = snd diceRoll
                  in if fst diceRoll \<ge> roomLossChance this then
                       bindE (stampRoom (board this) c (Num (i + 1)))
                       (\<lambda>b. Inr (this\<lparr>board := b,
                                roomList := roomList this @
                                  [\<lparr>room_x = roomX c, room_y = roomY c,
                                    room_width = roomWidth c, room_height = roomHeight c,
                                    room_grid = i, room_onPoint = onPoint c,
                                    room_type = None\<rparr>]\<rparr>))
                     else Inr this)))"

text \<open>\<^verbatim>\<open>arr.splice(i, 1)\<close>: a negative start counts from the end.\<close>

definition splice1 :: "'a list \<Rightarrow> int \<Rightarrow> 'a list" where
  "splice1 xs i =
     (let n = int (length xs);
          start = (if i < 0 then max 0 (n + i) else min i n)
      in take (nat start) xs @ drop (nat start + 1) xs)"

text \<open>\<^verbatim>\<open>room.type = t\<close> on the room object at position \<open>k\<close> of the room list.\<close>

definition setRoomType :: "roomObj list \<Rightarrow> nat \<Rightarrow> roomType \<Rightarrow> roomObj list" where
  "setRoomType rooms k t = rooms[k := (rooms ! k)\<lparr>room_type := Some t\<rparr>]"

text \<open>
  \<^verbatim>\<open>{ x: randomInt(room.x + 1, room.x + room.width - 2),
     y: randomInt(room.y + 1, room.y + room.height - 2) }\<close>
\<close>

definition pickInside :: "roomObj \<Rightarrow> dungeon \<Rightarrow> coord \<times> dungeon" where
  "pickInside room this0 =
     (let rx = randomInt this0 (room_x room + 1) (room_x room + room_width room - 2);
          ry = randomInt (snd rx) (room_y room + 1) (room_y room + room_height room - 2)
      in ((fst rx, fst ry), snd ry))"

text \<open>
  The promotion once the two rooms are chosen: their types, the two special points, and
  the two tiles. \<open>entryRef\<close> and \<open>exitRef\<close> are the positions of the chosen room
  objects in \<open>roomList\<close>.
\<close>

definition promoteRooms :: "dungeon \<Rightarrow> nat \<Rightarrow> nat \<Rightarrow> error + dungeon" where
  "promoteRooms this1 entryRef exitRef =
     (let rooms = setRoomType (setRoomType (roomList this1) entryRef RoomENTRY) exitRef RoomEXIT;
          pe = pickInside (rooms ! entryRef) (this1\<lparr>roomList := rooms\<rparr>);
          px = pickInside (rooms ! exitRef) (snd pe);
          this2 = (snd px)\<lparr>specialPoints := \<lparr>sp_entry = Some (fst pe), sp_exit = Some (fst px)\<rparr>\<rparr>
      in bindE (boardSetType (board this2) (fst (fst pe)) (snd (fst pe)) ENTRY)
         (\<lambda>b. bindE (boardSetType b (fst (fst px)) (snd (fst px)) EXIT)
         (\<lambda>b. Inr (this2\<lparr>board := b\<rparr>))))"

text \<open>
  The end of \<^verbatim>\<open>#createRooms\<close>. \<^verbatim>\<open>availableRooms\<close> holds references to the room
  objects of \<^verbatim>\<open>roomList\<close>: here their positions in \<open>roomList\<close>, so that
  \<^verbatim>\<open>entryRoom.type = ...\<close> changes the room in the list. Using a room that is
  \<^verbatim>\<open>undefined\<close> throws.
\<close>

definition designateRooms :: "dungeon \<Rightarrow> error + dungeon" where
  "designateRooms this0 =
     (if length (roomList this0) \<ge> 2 then
        (let availableRooms = [0..<length (roomList this0)];
             entryIndex = randomInt this0 0 (int (length availableRooms) - 1);
             entryRoom = nthE availableRooms (fst entryIndex);
             availableRooms = splice1 availableRooms (fst entryIndex);
             exitIndex = randomInt (snd entryIndex) 0 (int (length availableRooms) - 1);
             exitRoom = nthE availableRooms (fst exitIndex)
         in bindE (deref entryRoom) (\<lambda>entryRef. bindE (deref exitRoom) (\<lambda>exitRef.
              promoteRooms (snd exitIndex) entryRef exitRef)))
      else Inr this0)"

definition createRooms :: "dungeon \<Rightarrow> error + dungeon" where
  "createRooms this0 =
     bindE (forEachE placeRoom (indexed (gridList this0)) this0) designateRooms"

section \<open>Extra-path augmenter\<close>

text \<open>The tiles of type \<^verbatim>\<open>'P'\<close>, column by column.\<close>

definition pathableTilesOf :: "board \<Rightarrow> error + coord list" where
  "pathableTilesOf b =
     forEachE (\<lambda>xc. forUptoE 0 (int (length (cells (snd xc))))
                 (\<lambda>y tiles. bindE (deref (colGet (snd xc) y))
                    (\<lambda>t. Inr (if t = P then tiles @ [(fst xc, y)] else tiles))))
       (indexed b) []"

definition stampIfWall :: "coord \<Rightarrow> board \<Rightarrow> error + board" where
  "stampIfWall point b =
     bindE (tileTypeAt b (fst point) (snd point))
       (\<lambda>t. if le0 t then boardSet b (fst point) (snd point) P else Inr b)"

definition addRandomPath :: "coord list \<Rightarrow> int \<Rightarrow> dungeon \<Rightarrow> error + dungeon" where
  "addRandomPath pathableTiles i this0 =
     (let r1 = randomInt this0 0 (int (length pathableTiles) - 1);
          start = nthE pathableTiles (fst r1);
          r2 = randomInt (snd r1) 0 (int (length pathableTiles) - 1);
          endTile = nthE pathableTiles (fst r2);
          this = snd r2
      in bindE (deref start) (\<lambda>s. bindE (deref endTile) (\<lambda>e.
           if fst s = fst e \<or> snd s = snd e then Inr this
           else bindE (getPath s e)
                (\<lambda>path. bindE (forEachE stampIfWall path (board this))
                (\<lambda>b. Inr (this\<lparr>board := b\<rparr>))))))"

definition addRandomPaths :: "dungeon \<Rightarrow> error + dungeon" where
  "addRandomPaths this0 =
     (let pathCount = randomInt this0 0 (randomPathMax this0)
      in bindE (pathableTilesOf (board (snd pathCount)))
         (\<lambda>pathableTiles. forUptoE 0 (fst pathCount) (addRandomPath pathableTiles) (snd pathCount)))"

section \<open>Connectivity validator\<close>

text \<open>The eight neighbours in the order of the \<^verbatim>\<open>switch\<close> of \<^verbatim>\<open>#getAdjacentTiles\<close>.\<close>

definition neighbourOffsets :: "coord list" where
  "neighbourOffsets = [(-1, -1), (0, -1), (1, -1), (1, 0), (1, 1), (0, 1), (-1, 1), (-1, 0)]"

text \<open>
  \<^verbatim>\<open>#getAdjacentTiles(point)\<close>. \<^verbatim>\<open>this.board[tileX][tileY]\<close> throws when the column
  does not exist; a tile that does not exist in an existing column is \<^verbatim>\<open>undefined\<close>,
  and \<^verbatim>\<open>undefined?.type !== 0\<close> holds, so its position is added.
\<close>

definition getAdjacentTiles :: "board \<Rightarrow> coord \<Rightarrow> error + coord list" where
  "getAdjacentTiles b point =
     forEachE (\<lambda>d adjacentTiles.
         let tileX = fst point + fst d; tileY = snd point + snd d
         in bindE (boardGet b tileX tileY)
            (\<lambda>tile. Inr (if tile \<noteq> Some (Num 0) then adjacentTiles @ [(tileX, tileY)]
                          else adjacentTiles)))
       neighbourOffsets []"

text \<open>
  The two nested loops of \<^verbatim>\<open>#validateDungeon\<close>. \<open>k\<close> is the position of the array
  iterator of \<^verbatim>\<open>for (const tile of uncheckedTiles)\<close>, which reads the live array:
  it stops when \<open>k\<close> has reached the current length, and the \<^verbatim>\<open>while\<close> loop then
  starts a new iteration at \<open>0\<close> if tiles are left. Every element of the array is a
  distinct object, so \<^verbatim>\<open>indexOf(tile)\<close> is the position it was read from, and
  \<^verbatim>\<open>splice\<close> removes that element. \<open>checkedTiles\<close> is the set of keys \<^verbatim>\<open>"x,y"\<close>, kept
  as a list without repetition. \<open>None\<close> is a loop that never ends.
\<close>

partial_function (option) floodFill ::
  "board \<Rightarrow> coord list \<Rightarrow> nat \<Rightarrow> coord list \<Rightarrow> (error + coord list) option"
where
  "floodFill b uncheckedTiles k checkedTiles =
     (if k < length uncheckedTiles then
        (case getAdjacentTiles b (uncheckedTiles ! k) of
           Inl e \<Rightarrow> Some (Inl e)
         | Inr adjacentTiles \<Rightarrow>
             floodFill b
               ((take k uncheckedTiles @ drop (Suc k) uncheckedTiles) @
                  filter (\<lambda>a. a \<notin> set (List.insert (uncheckedTiles ! k) checkedTiles)) adjacentTiles)
               (Suc k)
               (List.insert (uncheckedTiles ! k) checkedTiles))
      else if length uncheckedTiles > 0 then floodFill b uncheckedTiles 0 checkedTiles
      else Some (Inr checkedTiles))"

declare floodFill.simps [code]

text \<open>\<^verbatim>\<open>this.board.flat().filter(tile => tile.type !== 0).length\<close>; \<^verbatim>\<open>flat\<close> skips holes.\<close>

definition floorTileCount :: "board \<Rightarrow> nat" where
  "floorTileCount b =
     length (filter (\<lambda>t. t \<noteq> Num 0)
       (concat (map (\<lambda>c. List.map_filter id (cells c)) b)))"

text \<open>\<^verbatim>\<open>#validateDungeon()\<close>: the result and the instance, whose seed has advanced.\<close>

definition validateDungeon :: "dungeon \<Rightarrow> (error + bool \<times> dungeon) option" where
  "validateDungeon this0 =
     (let r = randomInt this0 0 (int (length (pointList this0)) - 1);
          firstTile = nthE (pointList this0) (fst r);
          this = snd r
      in case firstTile of
           None \<Rightarrow> Some (Inl TypeError)
         | Some p \<Rightarrow>
            (case floodFill (board this) [pointXY p] 0 [] of
               None \<Rightarrow> None
             | Some (Inl e) \<Rightarrow> Some (Inl e)
             | Some (Inr checkedTiles) \<Rightarrow>
                 if length checkedTiles = floorTileCount (board this) then
                   (let gridCount = length (gridList this); roomCount = length (roomList this)
                    in if real roomCount < real gridCount / 2 then Some (Inr (False, this))
                       else Some (Inr (True, this)))
                 else Some (Inr (False, this))))"

section \<open>Dungeon controller\<close>

definition regenerate :: "dungeon \<Rightarrow> (error + dungeon) option" where
  "regenerate this0 =
     (let this1 = this0\<lparr>board := newBoard (colCount this0) (rowCount this0)\<rparr>;
          r = randomInt this1 (roomCountMin this1) (roomCountMax this1);
          this2 = (snd r)\<lparr>roomCount := adjustRoomCount (fst r)\<rparr>;
          this3 = createGrid (this2\<lparr>gridList := []\<rparr>)
      in case createPaths (this3\<lparr>pointList := [], connectionList := []\<rparr>) of
           Inl e \<Rightarrow> Some (Inl e)
         | Inr this4 \<Rightarrow>
            (case createRooms (this4\<lparr>roomList := []\<rparr>) of
               Inl e \<Rightarrow> Some (Inl e)
             | Inr this5 \<Rightarrow>
                (case addRandomPaths this5 of
                   Inl e \<Rightarrow> Some (Inl e)
                 | Inr this6 \<Rightarrow>
                    (case validateDungeon this6 of
                       None \<Rightarrow> None
                     | Some (Inl e) \<Rightarrow> Some (Inl e)
                     | Some (Inr v) \<Rightarrow> Some (Inr ((snd v)\<lparr>validDungeon := fst v\<rparr>))))))"

text \<open>\<^verbatim>\<open>while (!this.validDungeon && attempts < 10) { this.regenerate(); attempts++; }\<close>\<close>

function firstAttempts :: "dungeon \<times> int \<Rightarrow> (error + dungeon \<times> int) option" where
  "firstAttempts ta =
     (if \<not> validDungeon (fst ta) \<and> snd ta < 10 then
        (case regenerate (fst ta) of
           None \<Rightarrow> None
         | Some (Inl e) \<Rightarrow> Some (Inl e)
         | Some (Inr this) \<Rightarrow> firstAttempts (this, snd ta + 1))
      else Some (Inr ta))"
  by pat_completeness auto
termination
  by (relation "measure (\<lambda>ta. nat (10 - snd ta))") auto

declare firstAttempts.simps [simp del]

text \<open>
  \<^verbatim>\<open>while (!this.validDungeon && attempts >= 10) { ... }\<close>: the loss chances are set
  to \<^verbatim>\<open>0\<close> for the attempt and put back after it; \<open>n\<close> is \<^verbatim>\<open>attempts\<close>. Nothing
  bounds this loop.
\<close>

partial_function (option) forcedAttempts :: "dungeon \<Rightarrow> int \<Rightarrow> (error + dungeon) option" where
  "forcedAttempts this n =
     (if \<not> validDungeon this \<and> n \<ge> 10 then
        (case regenerate (this\<lparr>pointLossChance := 0, roomLossChance := 0\<rparr>) of
           None \<Rightarrow> None
         | Some (Inl e) \<Rightarrow> Some (Inl e)
         | Some (Inr this') \<Rightarrow>
             forcedAttempts
               (this'\<lparr>pointLossChance := pointLossChance this,
                      roomLossChance := roomLossChance this\<rparr>)
               (n + 1))
      else Some (Inr this))"

declare forcedAttempts.simps [code]

text \<open>The options after \<^verbatim>\<open>{ ...Dungeon.DEFAULT_OPTIONS, ...options }\<close>.\<close>

record dungeonOptions =
  opt_rowCount :: int
  opt_colCount :: int
  opt_roomCountMin :: int
  opt_roomCountMax :: int
  opt_minRoomSizeX :: int
  opt_minRoomSizeY :: int
  opt_maxRoomSizeX :: int
  opt_maxRoomSizeY :: int
  opt_pointLossChance :: int
  opt_roomLossChance :: int
  opt_randomPathMax :: int
  opt_seed :: "int option"

definition DEFAULT_OPTIONS :: dungeonOptions where
  "DEFAULT_OPTIONS =
     \<lparr>opt_rowCount = 32, opt_colCount = 40, opt_roomCountMin = 8, opt_roomCountMax = 14,
      opt_minRoomSizeX = 3, opt_minRoomSizeY = 3, opt_maxRoomSizeX = 7, opt_maxRoomSizeY = 7,
      opt_pointLossChance = 10, opt_roomLossChance = 20, opt_randomPathMax = 2,
      opt_seed = None\<rparr>"

text \<open>The instance as the constructor has set it up when it reaches its two loops.\<close>

definition initDungeon :: "dungeonOptions \<Rightarrow> (nat \<Rightarrow> real) \<Rightarrow> dungeon" where
  "initDungeon config rnd =
     (let rows = max 20 (opt_rowCount config);
          cols = max 20 (opt_colCount config);
          minX = max 3 (opt_minRoomSizeX config);
          minY = max 3 (opt_minRoomSizeY config);
          this = \<lparr>rowCount = rows, colCount = cols, board = newBoard cols rows,
                  roomCountMin = opt_roomCountMin config, roomCountMax = opt_roomCountMax config,
                  roomCount = 0,
                  pointLossChance = opt_pointLossChance config,
                  roomLossChance = opt_roomLossChance config,
                  randomPathMax = opt_randomPathMax config,
                  validDungeon = False,
                  minRoomSizeX = minX, minRoomSizeY = minY,
                  maxRoomSizeX = max minX (opt_maxRoomSizeX config),
                  maxRoomSizeY = max minY (opt_maxRoomSizeY config),
                  gridList = [], pointList = [], connectionList = [], roomList = [],
                  specialPoints = \<lparr>sp_entry = None, sp_exit = None\<rparr>,
                  seed = opt_seed config, mathRandom = rnd\<rparr>;
          r = randomInt this (roomCountMin this) (roomCountMax this)
      in (snd r)\<lparr>roomCount := adjustRoomCount (fst r)\<rparr>)"

text \<open>\<^verbatim>\<open>new Dungeon(options)\<close>, given the results \<open>rnd\<close> that \<^verbatim>\<open>Math.random()\<close> will return.\<close>

definition Dungeon :: "dungeonOptions \<Rightarrow> (nat \<Rightarrow> real) \<Rightarrow> (error + dungeon) option" where
  "Dungeon config rnd =
     (case firstAttempts (initDungeon config rnd, 0) of
        None \<Rightarrow> None
      | Some (Inl e) \<Rightarrow> Some (Inl e)
      | Some (Inr ta) \<Rightarrow> forcedAttempts (fst ta) (snd ta))"

section \<open>Read access\<close>

text \<open>The strings of \<^verbatim>\<open>Dungeon.TileTypes\<close>.\<close>

datatype tileKind = TileWALL | TileFLOOR | TileCORRIDOR | TileENTRY | TileEXIT

text \<open>\<^verbatim>\<open>getTileAt(x, y)\<close>: \<open>None\<close> is \<^verbatim>\<open>null\<close>, \<open>Some k\<close> the object \<^verbatim>\<open>{ type: k }\<close>.\<close>

definition getTileAt :: "dungeon \<Rightarrow> int \<Rightarrow> int \<Rightarrow> error + tileKind option" where
  "getTileAt this i j =
     (if i < 0 \<or> i \<ge> colCount this \<or> j < 0 \<or> j \<ge> rowCount this then Inr None
      else bindE (tileTypeAt (board this) i j)
           (\<lambda>t. Inr (Some (if t = Num 0 then TileWALL
                            else if t = P then TileCORRIDOR
                            else if t = ENTRY then TileENTRY
                            else if t = EXIT then TileEXIT
                            else TileFLOOR))))"

text \<open>
  The values \<^verbatim>\<open>isWalkable\<close> can return. \<^verbatim>\<open>tile && tile.type !== WALL\<close> is \<^verbatim>\<open>tile\<close>
  itself when \<^verbatim>\<open>tile\<close> is \<^verbatim>\<open>null\<close>, and the boolean otherwise.
\<close>

datatype jsValue = JSNull | JSBool bool

definition isWalkable :: "dungeon \<Rightarrow> int \<Rightarrow> int \<Rightarrow> error + jsValue" where
  "isWalkable this i j =
     bindE (getTileAt this i j)
       (\<lambda>tile. case tile of None \<Rightarrow> Inr JSNull | Some k \<Rightarrow> Inr (JSBool (k \<noteq> TileWALL)))"

section \<open>Definitions used in the statements\<close>

text \<open>
  The three tests that the placement loop of \<^verbatim>\<open>#createRooms\<close> makes on one cell of a
  candidate: in bounds, \<^verbatim>\<open>type > 0\<close> false, and not on the border of the grid.
\<close>

definition cellAllowed :: "dungeon \<Rightarrow> gridObj \<Rightarrow> int \<Rightarrow> int \<Rightarrow> bool" where
  "cellAllowed this grid i j \<longleftrightarrow>
     0 \<le> i \<and> i < colCount this \<and> 0 \<le> j \<and> j < rowCount this \<and>
     (case tileTypeAt (board this) i j of Inl e \<Rightarrow> False | Inr t \<Rightarrow> \<not> gt0 t) \<and>
     i \<noteq> grid_x grid \<and> i \<noteq> grid_x grid + grid_width grid - 1 \<and>
     j \<noteq> grid_y grid \<and> j \<noteq> grid_y grid + grid_height grid - 1"

text \<open>
  The same cell as the specification words it: in bounds, still a wall (no room, point
  marker or corridor tile), not on the border of the grid.
\<close>

definition specCellValid :: "dungeon \<Rightarrow> gridObj \<Rightarrow> int \<Rightarrow> int \<Rightarrow> bool" where
  "specCellValid this grid i j \<longleftrightarrow>
     0 \<le> i \<and> i < colCount this \<and> 0 \<le> j \<and> j < rowCount this \<and>
     tileTypeAt (board this) i j = Inr (Num 0) \<and>
     i \<noteq> grid_x grid \<and> i \<noteq> grid_x grid + grid_width grid - 1 \<and>
     j \<noteq> grid_y grid \<and> j \<noteq> grid_y grid + grid_height grid - 1"

text \<open>Concrete instances for the examples: a 20 by 20 board of walls, seeded.\<close>

definition exampleInstance :: dungeon where
  "exampleInstance =
     \<lparr>rowCount = 20, colCount = 20, board = newBoard 20 20,
      roomCountMin = 8, roomCountMax = 14, roomCount = 8,
      pointLossChance = 10, roomLossChance = 20, randomPathMax = 2,
      validDungeon = False,
      minRoomSizeX = 3, minRoomSizeY = 3, maxRoomSizeX = 7, maxRoomSizeY = 7,
      gridList = [], pointList = [], connectionList = [], roomList = [],
      specialPoints = \<lparr>sp_entry = None, sp_exit = None\<rparr>,
      seed = Some 42, mathRandom = (\<lambda>_. 0)\<rparr>"

definition corridorInstance :: dungeon where
  "corridorInstance =
     exampleInstance\<lparr>board := (newBoard 20 20)[3 := colSet (newBoard 20 20 ! 3) 3 P]\<rparr>"

definition exampleGrid :: gridObj where
  "exampleGrid = \<lparr>grid_x = 0, grid_y = 0, grid_width = 10, grid_height = 10, grid_index = 0\<rparr>"

definition examplePoint :: pointObj where
  "examplePoint = \<lparr>point_x = 3, point_y = 3, point_gridIndex = 0\<rparr>"

definition exampleCandidate :: candidate where
  "exampleCandidate = \<lparr>validPosition = False, attempts = 0, onPoint = False,
                        roomWidth = 3, roomHeight = 3, roomX = 2, roomY = 2\<rparr>"

text \<open>
  One step of the flood fill: \<open>q\<close> is among the tiles that \<^verbatim>\<open>#getAdjacentTiles\<close> returns
  for \<open>p\<close>; and the tiles that such steps reach from a start tile.
\<close>

definition adjacentTo :: "board \<Rightarrow> coord \<Rightarrow> coord \<Rightarrow> bool" where
  "adjacentTo b p q \<longleftrightarrow> (case getAdjacentTiles b p of Inl e \<Rightarrow> False | Inr adj \<Rightarrow> q \<in> set adj)"

inductive reaches :: "board \<Rightarrow> coord \<Rightarrow> coord \<Rightarrow> bool" for b :: board and p :: coord where
  start: "reaches b p p"
| step: "reaches b p q \<Longrightarrow> adjacentTo b q r \<Longrightarrow> reaches b p r"

text \<open>
  A 20 by 20 instance with two grids and rooms of size 3, as \<^verbatim>\<open>regenerate()\<close> finds it;
  and the options of a dungeon with two rooms of size 3.
\<close>

definition smallRoomInstance :: dungeon where
  "smallRoomInstance =
     exampleInstance\<lparr>roomCountMin := 2, roomCountMax := 2, pointLossChance := 0,
                     roomLossChance := 0, randomPathMax := 0,
                     maxRoomSizeX := 3, maxRoomSizeY := 3, seed := Some 5\<rparr>"

definition twoRoomOptions :: dungeonOptions where
  "twoRoomOptions =
     \<lparr>opt_rowCount = 20, opt_colCount = 20, opt_roomCountMin = 2, opt_roomCountMax = 2,
      opt_minRoomSizeX = 3, opt_minRoomSizeY = 3, opt_maxRoomSizeX = 3, opt_maxRoomSizeY = 3,
      opt_pointLossChance = 10, opt_roomLossChance = 20, opt_randomPathMax = 0,
      opt_seed = Some 1\<rparr>"


text \<open>
  The random source returns numbers within the range it is asked for when
  \<^verbatim>\<open>Math.random()\<close> returns doubles of \<open>[0, 1)\<close> or the seed is not negative.
\<close>

definition rngOk :: "dungeon \<Rightarrow> bool" where
  "rngOk this \<longleftrightarrow>
     (case seed this of
        None \<Rightarrow> (\<forall>n. 0 \<le> mathRandom this n \<and> mathRandom this n < 1 \<and>
                      r64 (mathRandom this n) = mathRandom this n)
      | Some sd \<Rightarrow> 0 \<le> sd)"

text \<open>The smallest normal double, and half the smallest subnormal one.\<close>

definition minNormal :: real where
  "minNormal = 2 powi (- 1022)"

definition halfMinSubnormal :: real where
  "halfMinSubnormal = 2 powi (- 1075)"









text \<open>
  A board as \<^verbatim>\<open>regenerate\<close> creates it and the generation steps keep it: one column for
  each index below \<^verbatim>\<open>colCount\<close>, and in each column a tile at each index below
  \<^verbatim>\<open>rowCount\<close>.
\<close>

definition denseColumn :: "int \<Rightarrow> column \<Rightarrow> bool" where
  "denseColumn rows c \<longleftrightarrow>
     rows \<le> int (length (cells c)) \<and> list_all (\<lambda>v. v \<noteq> None) (take (nat rows) (cells c))"

definition wfBoard :: "dungeon \<Rightarrow> bool" where
  "wfBoard s \<longleftrightarrow>
     int (length (board s)) = colCount s \<and> list_all (denseColumn (rowCount s)) (board s)"

text \<open>
  The room sizes are positive, ordered, and not larger than the grid, so that every
  range the placement loop draws from is a proper one.
\<close>

definition roomsFit :: "dungeon \<Rightarrow> gridObj \<Rightarrow> bool" where
  "roomsFit s grid \<longleftrightarrow>
     1 \<le> minRoomSizeX s \<and> minRoomSizeX s \<le> maxRoomSizeX s \<and> maxRoomSizeX s \<le> grid_width grid \<and>
     1 \<le> minRoomSizeY s \<and> minRoomSizeY s \<le> maxRoomSizeY s \<and> maxRoomSizeY s \<le> grid_height grid"

text \<open>
  A candidate inside the grid that leaves at most one of its columns free, so that it
  covers the first or the last column of the grid.
\<close>

definition fillsWidth :: "gridObj \<Rightarrow> candidate \<Rightarrow> bool" where
  "fillsWidth grid c \<longleftrightarrow>
     1 \<le> roomWidth c \<and> 1 \<le> roomHeight c \<and> grid_x grid \<le> roomX c \<and>
     roomX c + roomWidth c \<le> grid_x grid + grid_width grid \<and>
     grid_width grid \<le> roomWidth c + 1"

text \<open>What the draws of the placement loop leave as it is, and the random source in range.\<close>

definition sameSetup :: "dungeon \<Rightarrow> dungeon \<Rightarrow> bool" where
  "sameSetup s t \<longleftrightarrow>
     board t = board s \<and> rowCount t = rowCount s \<and> colCount t = colCount s \<and>
     minRoomSizeX t = minRoomSizeX s \<and> maxRoomSizeX t = maxRoomSizeX s \<and>
     minRoomSizeY t = minRoomSizeY s \<and> maxRoomSizeY t = maxRoomSizeY s \<and>
     roomLossChance t = roomLossChance s \<and> roomList t = roomList s \<and> rngOk t"

text \<open>The variables of the placement loop when it is entered, before the first draw.\<close>

definition firstCandidate :: candidate where
  "firstCandidate =
     \<lparr>validPosition = False, attempts = 0, onPoint = False,
      roomWidth = 0, roomHeight = 0, roomX = 0, roomY = 0\<rparr>"

text \<open>The entry that \<^verbatim>\<open>#createRooms\<close> adds to the room list for a candidate.\<close>

definition roomOf :: "int \<Rightarrow> candidate \<Rightarrow> roomObj" where
  "roomOf i c =
     \<lparr>room_x = roomX c, room_y = roomY c, room_width = roomWidth c, room_height = roomHeight c,
      room_grid = i, room_onPoint = onPoint c, room_type = None\<rparr>"

text \<open>The steps of \<^verbatim>\<open>regenerate()\<close> that come before \<^verbatim>\<open>#createRooms()\<close>.\<close>

definition beforeRooms :: "dungeon \<Rightarrow> error + dungeon" where
  "beforeRooms this0 =
     (let this1 = this0\<lparr>board := newBoard (colCount this0) (rowCount this0)\<rparr>;
          r = randomInt this1 (roomCountMin this1) (roomCountMax this1);
          this2 = (snd r)\<lparr>roomCount := adjustRoomCount (fst r)\<rparr>;
          this3 = createGrid (this2\<lparr>gridList := []\<rparr>)
      in bindE (createPaths (this3\<lparr>pointList := [], connectionList := []\<rparr>))
           (\<lambda>this4. Inr (this4\<lparr>roomList := []\<rparr>)))"

text \<open>
  Ten grids of four columns on a board of twenty columns, and rooms of three columns.
\<close>

definition narrowOptions :: dungeonOptions where
  "narrowOptions =
     \<lparr>opt_rowCount = 20, opt_colCount = 20, opt_roomCountMin = 10, opt_roomCountMax = 10,
      opt_minRoomSizeX = 3, opt_minRoomSizeY = 3, opt_maxRoomSizeX = 3, opt_maxRoomSizeY = 3,
      opt_pointLossChance = 0, opt_roomLossChance = 0, opt_randomPathMax = 0,
      opt_seed = Some 1\<rparr>"

text \<open>
  The same board and grids with rooms of four columns, as wide as a grid, and every
  connection lost.
\<close>

definition edgeOptions :: dungeonOptions where
  "edgeOptions =
     \<lparr>opt_rowCount = 20, opt_colCount = 20, opt_roomCountMin = 10, opt_roomCountMax = 10,
      opt_minRoomSizeX = 4, opt_minRoomSizeY = 3, opt_maxRoomSizeX = 4, opt_maxRoomSizeY = 3,
      opt_pointLossChance = 100, opt_roomLossChance = 0, opt_randomPathMax = 0,
      opt_seed = Some 5\<rparr>"

text \<open>
  Two instances that run on a seed and agree on everything but the results that
  \<^verbatim>\<open>Math.random()\<close> would return.
\<close>

definition sameRun :: "dungeon \<Rightarrow> dungeon \<Rightarrow> bool" where
  "sameRun s t \<longleftrightarrow>
     seed s \<noteq> None \<and> seed t = seed s \<and>
     rowCount t = rowCount s \<and> colCount t = colCount s \<and> board t = board s \<and>
     roomCountMin t = roomCountMin s \<and> roomCountMax t = roomCountMax s \<and>
     roomCount t = roomCount s \<and> pointLossChance t = pointLossChance s \<and>
     roomLossChance t = roomLossChance s \<and> randomPathMax t = randomPathMax s \<and>
     validDungeon t = validDungeon s \<and>
     minRoomSizeX t = minRoomSizeX s \<and> minRoomSizeY t = minRoomSizeY s \<and>
     maxRoomSizeX t = maxRoomSizeX s \<and> maxRoomSizeY t = maxRoomSizeY s \<and>
     gridList t = gridList s \<and> pointList t = pointList s \<and>
     connectionList t = connectionList s \<and> roomList t = roomList s \<and>
     specialPoints t = specialPoints s"

section \<open>Evaluation of the seeded generator on integers\<close>

subsection \<open>Rounding to a double: bounds\<close>

lemma nearestEven_bounds: "y - 1 / 2 \<le> of_int (nearestEven y) \<and> of_int (nearestEven y) \<le> y + 1 / 2"
  unfolding nearestEven_def Let_def by (auto; linarith)

lemma nearestEven_of_int [simp]: "nearestEven (of_int k) = k"
  by (simp add: nearestEven_def)

lemma nearestEven_mono_int: "of_int k \<le> y \<Longrightarrow> k \<le> nearestEven y"
  unfolding nearestEven_def Let_def by (auto simp: le_floor_iff; linarith)

lemma nearestEven_mono_int': "y \<le> of_int k \<Longrightarrow> nearestEven y \<le> k"
  unfolding nearestEven_def Let_def by (auto simp: floor_le_iff; linarith)

lemma ulp_pos: "(0::real) < 2 powi k"
  by (rule zero_less_power_int) simp

lemma minNormal_pos: "0 < minNormal"
  unfolding minNormal_def by (rule ulp_pos)

lemma halfMinSubnormal_pos: "0 < halfMinSubnormal"
  unfolding halfMinSubnormal_def by (rule ulp_pos)

lemma log2_bounds:
  assumes "x \<noteq> 0"
  shows "2 powi \<lfloor>log 2 \<bar>x\<bar>\<rfloor> \<le> \<bar>x\<bar>" and "\<bar>x\<bar> < 2 powi (\<lfloor>log 2 \<bar>x\<bar>\<rfloor> + 1)"
proof -
  let ?k = "\<lfloor>log 2 \<bar>x\<bar>\<rfloor>"
  from assms have pos: "0 < \<bar>x\<bar>" by simp
  have "2 powr real_of_int ?k \<le> \<bar>x\<bar> \<and> \<bar>x\<bar> < 2 powr real_of_int (?k + 1)"
    using floor_log_eq_powr_iff[OF pos, of 2 ?k] by simp
  then show "2 powi ?k \<le> \<bar>x\<bar>" and "\<bar>x\<bar> < 2 powi (?k + 1)"
    using powr_real_of_int'[of 2 "?k + 1"] powr_real_of_int'[of 2 ?k] by simp_all
qed

lemma expo_upper:
  assumes "x \<noteq> 0"
  shows "\<bar>x\<bar> < 2 powi (expo x + 1)"
proof -
  have "(2::real) powi (\<lfloor>log 2 \<bar>x\<bar>\<rfloor> + 1) \<le> 2 powi (expo x + 1)"
    by (rule power_int_increasing) (simp_all add: expo_def)
  with log2_bounds(2)[OF assms] show ?thesis by linarith
qed

lemma expo_normal:
  assumes "minNormal \<le> \<bar>x\<bar>"
  shows "expo x = \<lfloor>log 2 \<bar>x\<bar>\<rfloor>"
proof -
  let ?k = "\<lfloor>log 2 \<bar>x\<bar>\<rfloor>"
  from assms minNormal_pos have nz: "x \<noteq> 0" by auto
  have "- 1022 \<le> ?k"
  proof (rule ccontr)
    assume "\<not> - 1022 \<le> ?k"
    then have "?k + 1 \<le> - 1022" by linarith
    then have "(2::real) powi (?k + 1) \<le> minNormal"
      unfolding minNormal_def by (intro power_int_increasing) simp_all
    with log2_bounds(2)[OF nz] assms show False by linarith
  qed
  then show ?thesis by (simp add: expo_def)
qed

lemma expo_lower:
  assumes "minNormal \<le> \<bar>x\<bar>"
  shows "2 powi (expo x) \<le> \<bar>x\<bar>"
proof -
  from assms minNormal_pos have nz: "x \<noteq> 0" by auto
  show ?thesis unfolding expo_normal[OF assms] by (rule log2_bounds(1)[OF nz])
qed

lemma expo_clamped:
  assumes "x \<noteq> 0" and "\<bar>x\<bar> < minNormal"
  shows "expo x = - 1022"
proof -
  let ?k = "\<lfloor>log 2 \<bar>x\<bar>\<rfloor>"
  have "?k < - 1022"
  proof (rule ccontr)
    assume "\<not> ?k < - 1022"
    then have "- 1022 \<le> ?k" by linarith
    then have "minNormal \<le> 2 powi ?k"
      unfolding minNormal_def by (intro power_int_increasing) simp_all
    with log2_bounds(1)[OF assms(1)] assms(2) show False by linarith
  qed
  then show ?thesis by (simp add: expo_def)
qed

lemma r64_eq: "x \<noteq> 0 \<Longrightarrow> r64 x = of_int (nearestEven (x / 2 powi (expo x - 52))) * 2 powi (expo x - 52)"
  by (simp add: r64_def)

lemma r64_zero [simp]: "r64 0 = 0"
  by (simp add: r64_def)

lemma r64_error:
  "\<bar>r64 x - x\<bar> \<le> 2 powi (expo x - 52) / 2"
proof (cases "x = 0")
  case True
  then show ?thesis using ulp_pos[of "expo x - 52"] by simp
next
  case False
  let ?u = "(2::real) powi (expo x - 52)"
  have u: "0 < ?u" by (rule ulp_pos)
  from nearestEven_bounds[of "x / ?u"]
  have "\<bar>of_int (nearestEven (x / ?u)) - x / ?u\<bar> \<le> 1 / 2" by linarith
  then have "\<bar>of_int (nearestEven (x / ?u)) - x / ?u\<bar> * ?u \<le> 1 / 2 * ?u"
    using u by (intro mult_right_mono) simp_all
  moreover have "r64 x - x = (of_int (nearestEven (x / ?u)) - x / ?u) * ?u"
    using u False by (simp add: r64_eq left_diff_distrib)
  then have "\<bar>of_int (nearestEven (x / ?u)) - x / ?u\<bar> * ?u = \<bar>r64 x - x\<bar>"
    using u by (simp add: abs_mult)
  ultimately show ?thesis by simp
qed

lemma r64_nonneg: "0 \<le> x \<Longrightarrow> 0 \<le> r64 x"
proof (cases "x = 0")
  case False
  assume "0 \<le> x"
  then have "of_int 0 \<le> x / 2 powi (expo x - 52)" using ulp_pos[of "expo x - 52"] by simp
  then have "0 \<le> nearestEven (x / 2 powi (expo x - 52))" by (rule nearestEven_mono_int)
  then show ?thesis using False ulp_pos[of "expo x - 52"] by (simp add: r64_eq)
qed simp

lemma r64_nonpos: "x \<le> 0 \<Longrightarrow> r64 x \<le> 0"
proof (cases "x = 0")
  case False
  assume "x \<le> 0"
  then have "x / 2 powi (expo x - 52) \<le> of_int 0"
    using ulp_pos[of "expo x - 52"] by (simp add: divide_le_0_iff)
  then have "nearestEven (x / 2 powi (expo x - 52)) \<le> 0" by (rule nearestEven_mono_int')
  then show ?thesis using False ulp_pos[of "expo x - 52"] by (simp add: r64_eq mult_le_0_iff)
qed simp

lemma half_ulp_normal:
  assumes "minNormal \<le> \<bar>x\<bar>"
  shows "2 powi (expo x - 52) / 2 \<le> \<bar>x\<bar> / 2 ^ 53"
proof -
  have "(2::real) powi (expo x - 52) = 2 powi (expo x) / 2 ^ 52"
    by (simp add: power_int_diff)
  also have "\<dots> \<le> \<bar>x\<bar> / 2 ^ 52"
    using expo_lower[OF assms] by (simp add: divide_right_mono)
  finally show ?thesis by simp
qed

lemma half_ulp_subnormal:
  assumes "x \<noteq> 0" and "\<bar>x\<bar> < minNormal"
  shows "2 powi (expo x - 52) / 2 = halfMinSubnormal"
proof -
  have "(2::real) powi (- 1074 - 1) * 2 = 2 powi (- 1074)"
    by (rule power_int_minus_mult) simp
  then have "(2::real) powi (- 1074) / 2 = 2 powi (- 1074 - 1)" by linarith
  then show ?thesis unfolding expo_clamped[OF assms] halfMinSubnormal_def by (simp del: power_int_numeral power_int_minus)
qed

lemma half_ulp:
  assumes "x \<noteq> 0"
  shows "2 powi (expo x - 52) / 2 \<le> \<bar>x\<bar> / 2 ^ 53 + halfMinSubnormal"
proof (cases "minNormal \<le> \<bar>x\<bar>")
  case True
  from half_ulp_normal[OF True] halfMinSubnormal_pos show ?thesis by linarith
next
  case False
  then have "\<bar>x\<bar> < minNormal" by simp
  from half_ulp_subnormal[OF assms this] show ?thesis by simp
qed

lemma r64_upper:
  assumes "0 \<le> x"
  shows "r64 x \<le> x * (1 + 1 / 2 ^ 53) + halfMinSubnormal"
proof (cases "x = 0")
  case True
  then show ?thesis using halfMinSubnormal_pos by simp
next
  case False
  have "r64 x \<le> x + 2 powi (expo x - 52) / 2" using r64_error[of x] by linarith
  also have "\<dots> \<le> x + (x / 2 ^ 53 + halfMinSubnormal)"
    using half_ulp[OF False] assms by simp
  also have "\<dots> = x * (1 + 1 / 2 ^ 53) + halfMinSubnormal"
    by (simp add: distrib_left)
  finally show ?thesis .
qed


lemma nearestEven_div:
  assumes "0 < b"
  shows "nearestEven (of_int a / of_int b) = roundDiv a b"
proof -
  have f: "\<lfloor>real_of_int a / real_of_int b\<rfloor> = a div b" by (rule floor_divide_of_int_eq)
  have "real_of_int a = real_of_int (a div b) * real_of_int b + real_of_int (a mod b)"
    by (metis of_int_add of_int_mult div_mult_mod_eq)
  then have frac: "real_of_int a / real_of_int b - real_of_int (a div b) = real_of_int (a mod b) / real_of_int b"
    using assms by (simp add: field_simps)
  have lt: "real_of_int (a mod b) / real_of_int b < 1 / 2 \<longleftrightarrow> 2 * (a mod b) < b"
    using assms by (simp add: field_simps) linarith
  have gt: "real_of_int (a mod b) / real_of_int b > 1 / 2 \<longleftrightarrow> 2 * (a mod b) > b"
    using assms by (simp add: field_simps) linarith
  show ?thesis
    unfolding nearestEven_def roundDiv_def Let_def f frac lt gt by simp
qed

lemma powi_nat: "0 \<le> k \<Longrightarrow> (2::real) powi k = 2 ^ nat k"
  by (simp add: power_int_def)

lemma powi_neg_nat: "k \<le> 0 \<Longrightarrow> (2::real) powi k = 1 / 2 ^ nat (- k)"
  by (cases "k = 0") (simp_all add: power_int_def field_simps)

lemma bitlen_powi:
  assumes "0 < p"
  shows "2 powi (bitlen p - 1) \<le> real_of_int p" and "real_of_int p < 2 powi (bitlen p)"
proof -
  from assms have b: "1 \<le> bitlen p" by (auto simp: bitlen_alt_def)
  from bitlen_bounds[OF assms] have "2 ^ nat (bitlen p - 1) \<le> p" "p < 2 ^ nat (bitlen p)" by simp_all
  then have "real_of_int (2 ^ nat (bitlen p - 1)) \<le> real_of_int p"
    "real_of_int p < real_of_int (2 ^ nat (bitlen p))"
    by (simp_all only: of_int_le_iff of_int_less_iff)
  then show "2 powi (bitlen p - 1) \<le> real_of_int p" and "real_of_int p < 2 powi (bitlen p)"
    using b by (simp_all add: powi_nat)
qed

lemma floor_log2_quot:
  assumes "0 < p" and "0 < q"
  shows "\<lfloor>log 2 (real_of_int p / real_of_int q)\<rfloor> = expoQ p q"
proof -
  let ?x = "real_of_int p / real_of_int q"
  let ?b = "bitlen p - bitlen q"
  have x: "0 < ?x" using assms by simp
  have q: "0 < real_of_int q" using assms by simp
  have hi: "?x < 2 powi (?b + 1)"
  proof -
    have "real_of_int p < 2 powi (bitlen p)" by (rule bitlen_powi(2)[OF assms(1)])
    also have "\<dots> = 2 powi (?b + 1) * 2 powi (bitlen q - 1)"
      by (simp add: power_int_add[symmetric])
    also have "\<dots> \<le> 2 powi (?b + 1) * real_of_int q"
      using bitlen_powi(1)[OF assms(2)] ulp_pos[of "?b + 1"] by simp
    finally show ?thesis using q by (simp add: field_simps)
  qed
  have lo: "2 powi (?b - 1) < ?x"
  proof -
    have "2 powi (?b - 1) * real_of_int q < 2 powi (?b - 1) * 2 powi (bitlen q)"
      using bitlen_powi(2)[OF assms(2)] ulp_pos[of "?b - 1"] by simp
    also have "\<dots> = 2 powi (bitlen p - 1)"
      by (simp add: power_int_add[symmetric])
    also have "\<dots> \<le> real_of_int p" by (rule bitlen_powi(1)[OF assms(1)])
    finally show ?thesis using q by (simp add: field_simps)
  qed
  have test: "(if 0 \<le> ?b then q * 2 ^ nat ?b \<le> p else q \<le> p * 2 ^ nat (- ?b)) \<longleftrightarrow> 2 powi ?b \<le> ?x"
  proof (cases "0 \<le> ?b")
    case True
    have "q * 2 ^ nat ?b \<le> p \<longleftrightarrow> real_of_int (q * 2 ^ nat ?b) \<le> real_of_int p"
      by (simp only: of_int_le_iff)
    also have "\<dots> \<longleftrightarrow> 2 powi ?b \<le> ?x"
      using True q by (simp add: powi_nat field_simps)
    finally show ?thesis using True by simp
  next
    case False
    have "q \<le> p * 2 ^ nat (- ?b) \<longleftrightarrow> real_of_int q \<le> real_of_int (p * 2 ^ nat (- ?b))"
      by (simp only: of_int_le_iff)
    also have "\<dots> \<longleftrightarrow> 2 powi ?b \<le> ?x"
      using False q by (simp add: powi_neg_nat field_simps)
    finally show ?thesis using False by simp
  qed
  show ?thesis
  proof (cases "2 powi ?b \<le> ?x")
    case True
    then have "expoQ p q = ?b" using test by (simp add: expoQ_def Let_def)
    moreover have "\<lfloor>log 2 ?x\<rfloor> = ?b"
      using floor_log_eq_powr_iff[OF x, of 2 ?b] True hi
        powr_real_of_int'[of 2 "?b + 1"] powr_real_of_int'[of 2 ?b] by simp
    ultimately show ?thesis by simp
  next
    case False
    then have "expoQ p q = ?b - 1" using test by (simp add: expoQ_def Let_def)
    moreover have "\<lfloor>log 2 ?x\<rfloor> = ?b - 1"
      using floor_log_eq_powr_iff[OF x, of 2 "?b - 1"] False lo
        powr_real_of_int'[of 2 "?b - 1"] powr_real_of_int'[of 2 ?b] by simp
    ultimately show ?thesis by simp
  qed
qed

lemma r64_quot:
  assumes "0 < q"
  shows "r64 (real_of_int p / real_of_int q) = real_of_int (fst (r64Q p q)) * 2 powi (snd (r64Q p q))"
proof (cases "p = 0")
  case True
  then show ?thesis by (simp add: r64Q_def)
next
  case False
  let ?x = "real_of_int p / real_of_int q"
  let ?e = "max (expoQ \<bar>p\<bar> q) (- 1022)"
  let ?s = "52 - ?e"
  have qr: "0 < real_of_int q" using assms by simp
  have nz: "?x \<noteq> 0" using False assms by simp
  have "\<bar>?x\<bar> = real_of_int \<bar>p\<bar> / real_of_int q" using assms by (simp add: abs_divide)
  then have e: "expo ?x = ?e"
    using floor_log2_quot[of "\<bar>p\<bar>" q] False assms by (simp add: expo_def)
  have ulp: "(2::real) powi (expo ?x - 52) = 2 powi (- ?s)" unfolding e by simp
  have arg: "?x / 2 powi (- ?s) =
      (if 0 \<le> ?s then real_of_int (p * 2 ^ nat ?s) / real_of_int q
       else real_of_int p / real_of_int (q * 2 ^ nat (- ?s)))"
  proof (cases "0 \<le> ?s")
    case True
    then have "(2::real) powi (- ?s) = 1 / 2 ^ nat ?s" using powi_neg_nat[of "- ?s"] by simp
    with True show ?thesis by simp
  next
    case neg: False
    then have "(2::real) powi (- ?s) = 2 ^ nat (- ?s)" using powi_nat[of "- ?s"] by simp
    with neg show ?thesis by simp
  qed
  have m: "nearestEven (?x / 2 powi (- ?s)) = fst (r64Q p q)"
  proof (cases "0 \<le> ?s")
    case True
    with arg have a: "?x / 2 powi (- ?s) = real_of_int (p * 2 ^ nat ?s) / real_of_int q"
      by (simp only: if_True)
    have "nearestEven (?x / 2 powi (- ?s)) = roundDiv (p * 2 ^ nat ?s) q"
      by (simp only: a nearestEven_div[OF assms])
    with True False show ?thesis by (simp add: r64Q_def Let_def)
  next
    case neg: False
    have pos: "0 < q * 2 ^ nat (- ?s)" using assms by simp
    from arg neg have a: "?x / 2 powi (- ?s) = real_of_int p / real_of_int (q * 2 ^ nat (- ?s))"
      by (simp only: if_False)
    have "nearestEven (?x / 2 powi (- ?s)) = roundDiv p (q * 2 ^ nat (- ?s))"
      by (simp only: a nearestEven_div[OF pos])
    with neg False show ?thesis by (simp add: r64Q_def Let_def)
  qed
  have k: "snd (r64Q p q) = - ?s" using False by (simp add: r64Q_def Let_def)
  have "r64 ?x = of_int (nearestEven (?x / 2 powi (- ?s))) * 2 powi (- ?s)"
    unfolding r64_eq[OF nz] ulp ..
  then show ?thesis unfolding m k .
qed

lemma floorD_eq: "\<lfloor>real_of_int m * 2 powi k\<rfloor> = floorD (m, k)"
proof (cases "0 \<le> k")
  case True
  then have "real_of_int m * 2 powi k = real_of_int (m * 2 ^ nat k)" by (simp add: powi_nat)
  then show ?thesis using True by (simp only: floor_of_int floorD_def fst_conv snd_conv if_True)
next
  case False
  then have "real_of_int m * 2 powi k = real_of_int m / real_of_int (2 ^ nat (- k))"
    by (simp add: powi_neg_nat)
  then show ?thesis using False by (simp only: floor_divide_of_int_eq floorD_def fst_conv snd_conv if_False)
qed

lemma scaleD_eq:
  "real_of_int m * 2 powi k * real_of_int n =
     real_of_int (fst (scaleD (m, k) n)) / real_of_int (snd (scaleD (m, k) n)) \<and>
   0 < snd (scaleD (m, k) n)"
proof (cases "0 \<le> k")
  case True
  then show ?thesis by (simp add: scaleD_def powi_nat)
next
  case False
  then show ?thesis by (simp add: scaleD_def powi_neg_nat)
qed

lemma roundDiv_one [simp]: "roundDiv a 1 = a"
  by (simp add: roundDiv_def)

lemma bitlen_pos: "0 < p \<Longrightarrow> 1 \<le> bitlen p"
  by (auto simp: bitlen_alt_def)

lemma expoQ_one: "0 < p \<Longrightarrow> expoQ p 1 = bitlen p - 1"
proof -
  assume p: "0 < p"
  have one: "bitlen 1 = 1" by (simp add: bitlen_alt_def)
  from bitlen_pos[OF p] have b: "0 \<le> bitlen p - 1" by simp
  from bitlen_bounds[OF p] have "2 ^ nat (bitlen p - 1) \<le> p" by simp
  with b show ?thesis by (simp add: expoQ_def one Let_def)
qed

lemma r64_of_int: "r64 (real_of_int n) = real_of_int (roundInt n)"
proof (cases "n = 0")
  case True
  then show ?thesis by (simp add: roundInt_def r64Q_def floorD_def)
next
  case False
  let ?e = "bitlen \<bar>n\<bar> - 1"
  from False have p: "0 < \<bar>n\<bar>" by simp
  from bitlen_pos[OF p] have e0: "0 \<le> ?e" by simp
  then have mx: "max ?e (- 1022) = ?e" by simp
  have q: "r64Q n 1 = (if 0 \<le> 52 - ?e then n * 2 ^ nat (52 - ?e) else roundDiv n (2 ^ nat (?e - 52)), ?e - 52)"
    using False by (simp add: r64Q_def expoQ_one[OF p] mx Let_def)
  have "r64 (real_of_int n) = real_of_int (fst (r64Q n 1)) * 2 powi (snd (r64Q n 1))"
    using r64_quot[of 1 n] by simp
  also have "\<dots> = real_of_int (floorD (r64Q n 1))"
  proof (cases "0 \<le> 52 - ?e")
    case True
    then have k: "?e - 52 \<le> 0" by simp
    have "real_of_int (n * 2 ^ nat (52 - ?e)) * 2 powi (?e - 52) = real_of_int n"
      using powi_neg_nat[OF k] by simp
    moreover have "floorD (n * 2 ^ nat (52 - ?e), ?e - 52) = n"
    proof (cases "?e - 52 = 0")
      case True
      then show ?thesis by (simp add: floorD_def)
    next
      case False
      with k have "nat (- (?e - 52)) = nat (52 - ?e)" "\<not> 0 \<le> ?e - 52" by simp_all
      then show ?thesis by (simp add: floorD_def)
    qed
    ultimately show ?thesis using True q by simp
  next
    case False
    then have k: "0 \<le> ?e - 52" by simp
    then show ?thesis using False q by (simp add: floorD_def powi_nat)
  qed
  finally show ?thesis by (simp add: roundInt_def)
qed

subsection \<open>The draw on integers\<close>

lemma seed_step:
  "\<lfloor>r64 (r64 (real_of_int sd * 9301) + 49297)\<rfloor> = roundInt (roundInt (sd * 9301) + 49297)"
proof -
  have a: "real_of_int sd * 9301 = real_of_int (sd * 9301)" by simp
  have b: "real_of_int (roundInt (sd * 9301)) + 49297 = real_of_int (roundInt (sd * 9301) + 49297)"
    by simp
  show ?thesis unfolding a r64_of_int b floor_of_int ..
qed

lemma draw_step:
  "\<lfloor>r64 (r64 (real_of_int s / 233280) * real_of_int n)\<rfloor> =
     floorD (r64Q (fst (scaleD (r64Q s 233280) n)) (snd (scaleD (r64Q s 233280) n)))"
proof -
  let ?d = "r64Q s 233280"
  have "real_of_int s / 233280 = real_of_int s / real_of_int 233280" by simp
  then have rnd: "r64 (real_of_int s / 233280) = real_of_int (fst ?d) * 2 powi (snd ?d)"
    using r64_quot[of 233280 s] by simp
  from scaleD_eq[of "fst ?d" "snd ?d" n]
  have q: "real_of_int (fst ?d) * 2 powi (snd ?d) * real_of_int n =
             real_of_int (fst (scaleD ?d n)) / real_of_int (snd (scaleD ?d n))"
    and pos: "0 < snd (scaleD ?d n)"
    by simp_all
  show ?thesis
    unfolding rnd q r64_quot[OF pos] floorD_eq by simp
qed

lemma r64_code [code]:
  "r64 (Ratreal r) =
     (let pq = quotient_of r; d = r64Q (fst pq) (snd pq)
      in if 0 \<le> snd d then real_of_int (fst d * 2 ^ nat (snd d))
         else real_of_int (fst d) / real_of_int (2 ^ nat (- snd d)))"
proof -
  obtain p q where pq: "quotient_of r = (p, q)" by (cases "quotient_of r")
  then have q: "0 < q" and r: "r = rat_of_int p / rat_of_int q"
    using quotient_of_denom_pos[OF pq] quotient_of_div[OF pq] by simp_all
  have "Ratreal r = real_of_int p / real_of_int q"
    unfolding r by (simp add: of_rat_divide)
  then have "r64 (Ratreal r) = real_of_int (fst (r64Q p q)) * 2 powi (snd (r64Q p q))"
    using r64_quot[OF q, of p] by simp
  also have "\<dots> = (if 0 \<le> snd (r64Q p q) then real_of_int (fst (r64Q p q) * 2 ^ nat (snd (r64Q p q)))
         else real_of_int (fst (r64Q p q)) / real_of_int (2 ^ nat (- snd (r64Q p q))))"
    by (simp add: powi_nat powi_neg_nat)
  finally show ?thesis by (simp add: pq Let_def)
qed

lemma randomInt_code [code]:
  "randomInt this mn mx =
     (case seed this of
        None \<Rightarrow>
          (\<lfloor>r64 (mathRandom this 0 * real_of_int (mx - mn + 1))\<rfloor> + mn,
           this\<lparr>mathRandom := (\<lambda>n. mathRandom this (Suc n))\<rparr>)
      | Some sd \<Rightarrow>
          (let sd' = jsRem (roundInt (roundInt (sd * 9301) + 49297)) 233280;
               pq = scaleD (r64Q sd' 233280) (mx - mn + 1)
           in (floorD (r64Q (fst pq) (snd pq)) + mn, this\<lparr>seed := Some sd'\<rparr>)))"
  by (cases "seed this") (simp_all only: randomInt_def Let_def seed_step draw_step option.case)

section \<open>Grid partitioner: the adjusted room count\<close>

lemma jsRem_zero_iff: "0 < b \<Longrightarrow> jsRem a b = 0 \<longleftrightarrow> a mod b = 0"
  by (auto simp: jsRem_def mod_eq_0_iff_dvd)

lemma adjustRoomCount_divisible:
  "adjustRoomCount r mod 2 = 0 \<or> adjustRoomCount r mod 3 = 0"
proof (induction r rule: adjustRoomCount.induct)
  case (1 r)
  show ?case
  proof (cases "jsRem r 2 \<noteq> 0 \<and> jsRem r 3 \<noteq> 0")
    case True
    then have "adjustRoomCount r = adjustRoomCount (r + 1)"
      by (subst adjustRoomCount.simps) simp
    with 1 True show ?thesis by simp
  next
    case False
    then have "adjustRoomCount r = r" by (subst adjustRoomCount.simps) auto
    with False show ?thesis by (auto simp: jsRem_zero_iff)
  qed
qed

lemma adjustRoomCount_least:
  "r \<le> adjustRoomCount r \<and> (\<forall>k. r \<le> k \<and> k < adjustRoomCount r \<longrightarrow> k mod 2 \<noteq> 0 \<and> k mod 3 \<noteq> 0)"
proof (induction r rule: adjustRoomCount.induct)
  case (1 r)
  show ?case
  proof (cases "jsRem r 2 \<noteq> 0 \<and> jsRem r 3 \<noteq> 0")
    case True
    then have eq: "adjustRoomCount r = adjustRoomCount (r + 1)"
      by (subst adjustRoomCount.simps) simp
    from True have r: "r mod 2 \<noteq> 0" "r mod 3 \<noteq> 0" by (simp_all add: jsRem_zero_iff)
    from 1 True have IH: "r + 1 \<le> adjustRoomCount (r + 1)"
      "\<And>k. r + 1 \<le> k \<Longrightarrow> k < adjustRoomCount (r + 1) \<Longrightarrow> k mod 2 \<noteq> 0 \<and> k mod 3 \<noteq> 0"
      by auto
    have "k mod 2 \<noteq> 0 \<and> k mod 3 \<noteq> 0" if k: "r \<le> k \<and> k < adjustRoomCount r" for k
    proof (cases "k = r")
      case True then show ?thesis using r by simp
    next
      case False
      with k eq show ?thesis using IH(2)[of k] by simp
    qed
    moreover have "r \<le> adjustRoomCount r" using IH(1) eq by simp
    ultimately show ?thesis by blast
  next
    case False
    then have "adjustRoomCount r = r" by (subst adjustRoomCount.simps) auto
    then show ?thesis by simp
  qed
qed

lemma forUpto_rows:
  assumes "\<And>i s. sel (body i s) = sel s @ map (\<lambda>j. mk i j (int (length (sel s)) + j)) [0..m - 1]"
    and "0 \<le> m"
  shows "sel (forUpto a n body s) =
         sel s @ concat (map (\<lambda>i. map (\<lambda>j. mk i j (int (length (sel s)) + m * (i - a) + j)) [0..m - 1]) [a..n - 1])"
  using assms
proof (induction a n body s rule: forUpto.induct)
  case (1 i n body s)
  note step = "1.prems"(1) and m = "1.prems"(2)
  show ?case
  proof (cases "i < n")
    case True
    have len: "int (length (sel (body i s))) = int (length (sel s)) + m"
      using m by (simp add: step)
    have up: "[i..n - 1] = i # [i + 1..n - 1]"
      using True by (simp add: upto_rec1)
    have "sel (forUpto i n body s) = sel (forUpto (i + 1) n body (body i s))"
      using True by (subst forUpto.simps) simp
    also have "\<dots> = sel (body i s) @
        concat (map (\<lambda>i'. map (\<lambda>j. mk i' j (int (length (sel (body i s))) + m * (i' - (i + 1)) + j)) [0..m - 1]) [i + 1..n - 1])"
      using "1.IH"[OF True step m] .
    also have "\<dots> = sel s @
        concat (map (\<lambda>i'. map (\<lambda>j. mk i' j (int (length (sel s)) + m * (i' - i) + j)) [0..m - 1]) [i..n - 1])"
      unfolding len up by (simp add: step algebra_simps)
    finally show ?thesis .
  next
    case False
    then show ?thesis by (subst forUpto.simps) simp
  qed
qed

lemma upto_0_1: "[0..1::int] = [0, 1]" and upto_0_2: "[0..2::int] = [0, 1, 2]"
  by (simp_all add: upto_rec1)

lemma createGrid_even:
  assumes "roomCount this mod 2 = 0"
  shows "gridList (createGrid this) = gridList this @
     concat (map (\<lambda>i. map (\<lambda>j.
         \<lparr>grid_x = i * (colCount this div (roomCount this div 2)), grid_y = j * (rowCount this div 2),
          grid_width = colCount this div (roomCount this div 2), grid_height = rowCount this div 2,
          grid_index = int (length (gridList this)) + 2 * i + j\<rparr>) [0..1]) [0..roomCount this div 2 - 1])"
proof -
  let ?mk = "\<lambda>i j k. \<lparr>grid_x = i * (colCount this div (roomCount this div 2)), grid_y = j * (rowCount this div 2),
          grid_width = colCount this div (roomCount this div 2), grid_height = rowCount this div 2,
          grid_index = k\<rparr>"
  let ?body = "\<lambda>i. forUpto 0 2 (\<lambda>j s. s\<lparr>gridList := gridList s @ [?mk i j (int (length (gridList s)))]\<rparr>)"
  have step: "gridList (?body i s) = gridList s @ map (\<lambda>j. ?mk i j (int (length (gridList s)) + j)) [0..2 - 1]" for i s
    by (simp add: forUpto.simps upto_0_1)
  have "gridList (forUpto 0 (roomCount this div 2) ?body this) =
      gridList this @ concat (map (\<lambda>i. map (\<lambda>j. ?mk i j (int (length (gridList this)) + 2 * (i - 0) + j)) [0..2 - 1]) [0..roomCount this div 2 - 1])"
    by (rule forUpto_rows[where sel = gridList and m = 2 and mk = ?mk, OF step]) simp
  then show ?thesis
    using assms by (simp add: createGrid_def jsRem_zero_iff Let_def)
qed


lemma createGrid_odd:
  assumes "roomCount this mod 2 \<noteq> 0"
  shows "gridList (createGrid this) = gridList this @
     concat (map (\<lambda>i. map (\<lambda>j.
         \<lparr>grid_x = j * (colCount this div 3), grid_y = i * (rowCount this div (roomCount this div 3)),
          grid_width = colCount this div 3, grid_height = rowCount this div (roomCount this div 3),
          grid_index = int (length (gridList this)) + 3 * i + j\<rparr>) [0..2]) [0..roomCount this div 3 - 1])"
proof -
  let ?mk = "\<lambda>i j k. \<lparr>grid_x = j * (colCount this div 3), grid_y = i * (rowCount this div (roomCount this div 3)),
          grid_width = colCount this div 3, grid_height = rowCount this div (roomCount this div 3),
          grid_index = k\<rparr>"
  let ?body = "\<lambda>i. forUpto 0 3 (\<lambda>j s. s\<lparr>gridList := gridList s @ [?mk i j (int (length (gridList s)))]\<rparr>)"
  have step: "gridList (?body i s) = gridList s @ map (\<lambda>j. ?mk i j (int (length (gridList s)) + j)) [0..3 - 1]" for i s
    by (simp add: forUpto.simps upto_0_2)
  have "gridList (forUpto 0 (roomCount this div 3) ?body this) =
      gridList this @ concat (map (\<lambda>i. map (\<lambda>j. ?mk i j (int (length (gridList this)) + 3 * (i - 0) + j)) [0..3 - 1]) [0..roomCount this div 3 - 1])"
    by (rule forUpto_rows[where sel = gridList and m = 3 and mk = ?mk, OF step]) simp
  then show ?thesis
    using assms by (simp add: createGrid_def jsRem_zero_iff Let_def)
qed

lemma pairs_upto: "concat (map (\<lambda>i. [2 * i, 2 * i + 1]) [0..int n - 1]) = [0..2 * int n - 1]"
proof (induction n)
  case 0
  then show ?case by simp
next
  case (Suc n)
  have a: "[0..int (Suc n) - 1] = [0..int n - 1] @ [int n]"
    by (simp add: upto_rec2)
  have b: "[0..2 * int (Suc n) - 1] = ([0..2 * int n - 1] @ [2 * int n]) @ [2 * int n + 1]"
    by (simp add: upto_rec2)
  show ?case unfolding a b using Suc by simp
qed

lemma triples_upto: "concat (map (\<lambda>i. [3 * i, 3 * i + 1, 3 * i + 2]) [0..int n - 1]) = [0..3 * int n - 1]"
proof (induction n)
  case 0
  then show ?case by simp
next
  case (Suc n)
  have a: "[0..int (Suc n) - 1] = [0..int n - 1] @ [int n]"
    by (simp add: upto_rec2)
  have b: "[0..3 * int (Suc n) - 1] = (([0..3 * int n - 1] @ [3 * int n]) @ [3 * int n + 1]) @ [3 * int n + 2]"
    by (simp add: upto_rec2)
  show ?case unfolding a b using Suc by simp
qed

lemma createGrid_indices:
  assumes "0 \<le> roomCount this" and "roomCount this mod 2 = 0 \<or> roomCount this mod 3 = 0"
    and "gridList this = []"
  shows "map grid_index (gridList (createGrid this)) = [0..roomCount this - 1]"
proof (cases "roomCount this mod 2 = 0")
  case True
  obtain n where n: "roomCount this div 2 = int n"
    using assms(1) by (metis nonneg_int_cases pos_imp_zdiv_nonneg_iff zero_less_numeral)
  have R: "roomCount this = 2 * int n" using True n by presburger
  have "map grid_index (gridList (createGrid this)) = concat (map (\<lambda>i. [2 * i, 2 * i + 1]) [0..int n - 1])"
    by (simp add: createGrid_even[OF True] assms(3) n upto_0_1 map_concat comp_def)
  then show ?thesis by (simp add: pairs_upto R)
next
  case False
  then have three: "roomCount this mod 3 = 0" using assms(2) by simp
  obtain n where n: "roomCount this div 3 = int n"
    using assms(1) by (metis nonneg_int_cases pos_imp_zdiv_nonneg_iff zero_less_numeral)
  have R: "roomCount this = 3 * int n" using three n by presburger
  have "map grid_index (gridList (createGrid this)) = concat (map (\<lambda>i. [3 * i, 3 * i + 1, 3 * i + 2]) [0..int n - 1])"
    by (simp add: createGrid_odd[OF False] assms(3) n upto_0_2 map_concat comp_def)
  then show ?thesis by (simp add: triples_upto R)
qed

text \<open>
  C6. The sampled room count \<open>r\<close> is incremented until it is divisible by 2 or by 3
  (the result is the least such number from \<open>r\<close> on), and \<^verbatim>\<open>#createGrid\<close> then
  produces exactly that many grids, numbered \<open>0, 1, ...\<close> in creation order: for an even
  count, \<open>R / 2\<close> column slices (index \<open>i\<close>) of 2 row bands (index \<open>j\<close>) each;
  otherwise \<open>R / 3\<close> row slices of 3 column bands each. A count is not negative.
\<close>

theorem createGrid_adjusted_count:
  assumes "0 \<le> r" and "roomCount this = adjustRoomCount r" and "gridList this = []"
  shows "(roomCount this mod 2 = 0 \<or> roomCount this mod 3 = 0) \<and>
         r \<le> roomCount this \<and>
         (\<forall>k. r \<le> k \<and> k < roomCount this \<longrightarrow> k mod 2 \<noteq> 0 \<and> k mod 3 \<noteq> 0) \<and>
         int (length (gridList (createGrid this))) = roomCount this \<and>
         map grid_index (gridList (createGrid this)) = [0..roomCount this - 1] \<and>
         gridList (createGrid this) =
           (if roomCount this mod 2 = 0 then
              concat (map (\<lambda>i. map (\<lambda>j.
                \<lparr>grid_x = i * (colCount this div (roomCount this div 2)),
                 grid_y = j * (rowCount this div 2),
                 grid_width = colCount this div (roomCount this div 2),
                 grid_height = rowCount this div 2,
                 grid_index = 2 * i + j\<rparr>) [0..1]) [0..roomCount this div 2 - 1])
            else
              concat (map (\<lambda>i. map (\<lambda>j.
                \<lparr>grid_x = j * (colCount this div 3),
                 grid_y = i * (rowCount this div (roomCount this div 3)),
                 grid_width = colCount this div 3,
                 grid_height = rowCount this div (roomCount this div 3),
                 grid_index = 3 * i + j\<rparr>) [0..2]) [0..roomCount this div 3 - 1]))"
proof -
  have d: "roomCount this mod 2 = 0 \<or> roomCount this mod 3 = 0"
    using adjustRoomCount_divisible[of r] assms(2) by simp
  have l: "r \<le> roomCount this"
    "\<forall>k. r \<le> k \<and> k < roomCount this \<longrightarrow> k mod 2 \<noteq> 0 \<and> k mod 3 \<noteq> 0"
    using adjustRoomCount_least[of r] assms(2) by simp_all
  have nn: "0 \<le> roomCount this" using l(1) assms(1) by simp
  have idx: "map grid_index (gridList (createGrid this)) = [0..roomCount this - 1]"
    by (rule createGrid_indices[OF nn d assms(3)])
  have "length (map grid_index (gridList (createGrid this))) = nat (roomCount this)"
    unfolding idx by simp
  then have len: "int (length (gridList (createGrid this))) = roomCount this"
    using nn by simp
  have lay: "gridList (createGrid this) =
           (if roomCount this mod 2 = 0 then
              concat (map (\<lambda>i. map (\<lambda>j.
                \<lparr>grid_x = i * (colCount this div (roomCount this div 2)),
                 grid_y = j * (rowCount this div 2),
                 grid_width = colCount this div (roomCount this div 2),
                 grid_height = rowCount this div 2,
                 grid_index = 2 * i + j\<rparr>) [0..1]) [0..roomCount this div 2 - 1])
            else
              concat (map (\<lambda>i. map (\<lambda>j.
                \<lparr>grid_x = j * (colCount this div 3),
                 grid_y = i * (rowCount this div (roomCount this div 3)),
                 grid_width = colCount this div 3,
                 grid_height = rowCount this div (roomCount this div 3),
                 grid_index = 3 * i + j\<rparr>) [0..2]) [0..roomCount this div 3 - 1]))"
    by (simp add: createGrid_even createGrid_odd assms(3))
  from d l len idx lay show ?thesis by blast
qed


lemma adjustRoomCount_7: "adjustRoomCount 7 = 8"
  by (simp add: adjustRoomCount.simps jsRem_def)

theorem createGrid_adjusted_count_witness:
  "(0::int) \<le> 7 \<and>
   roomCount ((initDungeon DEFAULT_OPTIONS (\<lambda>_. 0))\<lparr>roomCount := 8, gridList := []\<rparr>) = adjustRoomCount 7 \<and>
   gridList ((initDungeon DEFAULT_OPTIONS (\<lambda>_. 0))\<lparr>roomCount := 8, gridList := []\<rparr>) = [] \<and>
   int (length (gridList (createGrid ((initDungeon DEFAULT_OPTIONS (\<lambda>_. 0))\<lparr>roomCount := 8, gridList := []\<rparr>)))) = 8 \<and>
   map grid_index (gridList (createGrid ((initDungeon DEFAULT_OPTIONS (\<lambda>_. 0))\<lparr>roomCount := 8, gridList := []\<rparr>))) = [0..7]"
proof -
  let ?s = "(initDungeon DEFAULT_OPTIONS (\<lambda>_. 0))\<lparr>roomCount := 8, gridList := []\<rparr>"
  have h: "(0::int) \<le> 7" "roomCount ?s = adjustRoomCount 7" "gridList ?s = []"
    by (simp_all add: adjustRoomCount_7)
  from createGrid_adjusted_count[OF h]
  have "int (length (gridList (createGrid ?s))) = roomCount ?s"
    and "map grid_index (gridList (createGrid ?s)) = [0..roomCount ?s - 1]"
    by blast+
  then show ?thesis using h by simp
qed


section \<open>Path synthesis: a destination up and to the left\<close>

text \<open>
  C1. The claim: for any two distinct points the path of \<^verbatim>\<open>#getPath\<close> starts at the
  first point, ends at the second and moves one tile along one axis at a time. The code
  does not do this when the destination lies up and to the left of the start: from
  \<open>(10, 10)\<close> to \<open>(5, 3)\<close> the last loop, which counts upwards to \<^verbatim>\<open>Math.abs(endX)\<close>,
  does not run, and the path stops at \<open>(8, 3)\<close>, three tiles short of the destination.
\<close>

theorem getPath_up_left_stops_short:
  "getPath (10, 10) (5, 3) =
     Inr [(10, 10), (9, 10), (8, 10), (8, 9), (8, 8), (8, 7), (8, 6), (8, 5), (8, 4), (8, 3)]"
  by code_simp

section \<open>Read access out of bounds\<close>

text \<open>
  C9. The claim: \<^verbatim>\<open>getTileAt\<close> returns \<^verbatim>\<open>null\<close> exactly out of bounds, and
  \<^verbatim>\<open>isWalkable\<close> returns a boolean, \<^verbatim>\<open>false\<close> unless the position is in bounds and
  not a wall. Out of bounds \<^verbatim>\<open>isWalkable\<close> returns \<^verbatim>\<open>null\<close>, the value of
  \<^verbatim>\<open>tile && ...\<close> for the \<^verbatim>\<open>null\<close> tile, on every instance.
\<close>

theorem isWalkable_out_of_bounds_is_null:
  "isWalkable this (- 1) 0 = Inr JSNull"
  by (simp add: isWalkable_def getTileAt_def bindE_def)

section \<open>Room placer: the test of a candidate\<close>

lemma checkColumn_flags:
  "checkColumn this grid (Some p) i j jEnd st = Inr st' \<Longrightarrow>
     fst st' = (fst st \<and> (\<forall>j'. j \<le> j' \<and> j' < jEnd \<longrightarrow> cellAllowed this grid i j')) \<and>
     ((\<forall>j'. j \<le> j' \<and> j' < jEnd \<longrightarrow> cellAllowed this grid i j') \<longrightarrow>
        snd st' = (snd st \<or> (i = point_x p \<and> j \<le> point_y p \<and> point_y p < jEnd)))"
proof (induction this grid "Some p" i j jEnd st rule: checkColumn.induct)
  case (1 this grid i j jEnd st)
  show ?case
  proof (cases "j < jEnd")
    case False
    with "1.prems" show ?thesis by (auto simp: checkColumn.simps)
  next
    case True
    show ?thesis
    proof (cases "cellAllowed this grid i j")
      case False
      with True "1.prems" have "fst st' = False"
        by (auto simp: checkColumn.simps[of this grid "Some p" i j] cellAllowed_def
            split: if_splits sum.splits)
      moreover have "\<not> (\<forall>j'. j \<le> j' \<and> j' < jEnd \<longrightarrow> cellAllowed this grid i j')"
        using False True by auto
      ultimately show ?thesis by blast
    next
      case ok: True
      then obtain t where t: "tileTypeAt (board this) i j = Inr t" "\<not> gt0 t"
        by (auto simp: cellAllowed_def split: sum.splits)
      let ?st = "if i = point_x p \<and> j = point_y p then (fst st, True) else st"
      have rec: "checkColumn this grid (Some p) i (j + 1) jEnd ?st = Inr st'"
        using "1.prems" True ok t
        by (simp add: checkColumn.simps[of this grid "Some p" i j] cellAllowed_def)
      have IH: "fst st' = (fst ?st \<and> (\<forall>j'. j + 1 \<le> j' \<and> j' < jEnd \<longrightarrow> cellAllowed this grid i j')) \<and>
        ((\<forall>j'. j + 1 \<le> j' \<and> j' < jEnd \<longrightarrow> cellAllowed this grid i j') \<longrightarrow>
        snd st' = (snd ?st \<or> (i = point_x p \<and> j + 1 \<le> point_y p \<and> point_y p < jEnd)))"
        using "1.hyps"[OF True _ t(1) t(2) _ refl rec] ok
        by (simp add: cellAllowed_def)
      have lo: "j \<le> j' \<longleftrightarrow> j' = j \<or> j + 1 \<le> j'" for j'
        by linarith
      have split: "(\<forall>j'. j \<le> j' \<and> j' < jEnd \<longrightarrow> cellAllowed this grid i j') \<longleftrightarrow>
         (\<forall>j'. j + 1 \<le> j' \<and> j' < jEnd \<longrightarrow> cellAllowed this grid i j')"
        using ok True unfolding lo by blast
      show ?thesis
        unfolding split using IH True by (auto split: if_splits)
    qed
  qed
qed


lemma checkRoom_columns:
  "forUptoE i n (\<lambda>x st. checkColumn this grid (Some p) x j jEnd st) st = Inr st' \<Longrightarrow>
     fst st' = (fst st \<and> (\<forall>i' j'. i \<le> i' \<and> i' < n \<and> j \<le> j' \<and> j' < jEnd \<longrightarrow> cellAllowed this grid i' j')) \<and>
     ((\<forall>i' j'. i \<le> i' \<and> i' < n \<and> j \<le> j' \<and> j' < jEnd \<longrightarrow> cellAllowed this grid i' j') \<longrightarrow>
        snd st' = (snd st \<or> (i \<le> point_x p \<and> point_x p < n \<and> j \<le> point_y p \<and> point_y p < jEnd)))"
proof (induction i n "\<lambda>x st. checkColumn this grid (Some p) x j jEnd st" st rule: forUptoE.induct)
  case (1 i n st)
  let ?col = "\<lambda>i. \<forall>j'. j \<le> j' \<and> j' < jEnd \<longrightarrow> cellAllowed this grid i j'"
  show ?case
  proof (cases "i < n")
    case False
    with "1.prems" show ?thesis by (auto simp: forUptoE.simps)
  next
    case True
    from "1.prems" True obtain st1 where
      c: "checkColumn this grid (Some p) i j jEnd st = Inr st1" and
      r: "forUptoE (i + 1) n (\<lambda>x st. checkColumn this grid (Some p) x j jEnd st) st1 = Inr st'"
      by (subst (asm) forUptoE.simps) (auto split: sum.splits)
    note C = checkColumn_flags[OF c]
    note R = "1.hyps"[OF True c r]
    have lo: "i \<le> i' \<longleftrightarrow> i' = i \<or> i + 1 \<le> i'" for i'
      by linarith
    have split: "(\<forall>i' j'. i \<le> i' \<and> i' < n \<and> j \<le> j' \<and> j' < jEnd \<longrightarrow> cellAllowed this grid i' j') \<longleftrightarrow>
       ?col i \<and> (\<forall>i' j'. i + 1 \<le> i' \<and> i' < n \<and> j \<le> j' \<and> j' < jEnd \<longrightarrow> cellAllowed this grid i' j')"
      using True unfolding lo by blast
    show ?thesis
      unfolding split using C R True by auto
  qed
qed

text \<open>
  C3, as amended. The placement loop accepts a candidate (leaves the loop with
  \<open>validPosition\<close> and \<open>onPoint\<close> both true) exactly when every cell of the rectangle
  is in bounds, does not hold a positive number (a room or a point marker; a corridor
  tile \<^verbatim>\<open>'P'\<close> does not count, since \<^verbatim>\<open>'P' > 0\<close> is false), is not on the border of
  the grid, and the rectangle covers the connection point of the grid.
\<close>

theorem checkRoom_accepts_iff:
  assumes "checkRoom this grid (Some p) c = Inr st"
  shows "(fst st \<and> snd st) \<longleftrightarrow>
     (\<forall>i j. roomX c \<le> i \<and> i < roomX c + roomWidth c \<and> roomY c \<le> j \<and> j < roomY c + roomHeight c
        \<longrightarrow> cellAllowed this grid i j) \<and>
     roomX c \<le> point_x p \<and> point_x p < roomX c + roomWidth c \<and>
     roomY c \<le> point_y p \<and> point_y p < roomY c + roomHeight c"
  using checkRoom_columns[OF assms[unfolded checkRoom_def]] by auto


lemma checkRoom_example:
  "checkRoom corridorInstance exampleGrid (Some examplePoint) exampleCandidate = Inr (True, True)"
  by code_simp

lemma corridor_example: "tileTypeAt (board corridorInstance) 3 3 = Inr P"
  by code_simp

text \<open>
  C3, as the claim states it, fails: the candidate below is accepted although its cell
  \<open>(3, 3)\<close> is a corridor tile, which the claim counts as an overlap.
\<close>

theorem checkRoom_accepts_corridor_overlap:
  "checkRoom corridorInstance exampleGrid (Some examplePoint) exampleCandidate = Inr (True, True) \<and>
   roomX exampleCandidate \<le> 3 \<and> 3 < roomX exampleCandidate + roomWidth exampleCandidate \<and>
   roomY exampleCandidate \<le> 3 \<and> 3 < roomY exampleCandidate + roomHeight exampleCandidate \<and>
   \<not> specCellValid corridorInstance exampleGrid 3 3"
  using checkRoom_example corridor_example
  by (simp add: specCellValid_def exampleCandidate_def)

theorem checkRoom_accepts_iff_witness:
  "checkRoom corridorInstance exampleGrid (Some examplePoint) exampleCandidate = Inr (True, True) \<and>
   cellAllowed corridorInstance exampleGrid 3 3 \<and>
   roomX exampleCandidate \<le> point_x examplePoint \<and>
   point_x examplePoint < roomX exampleCandidate + roomWidth exampleCandidate \<and>
   roomY exampleCandidate \<le> point_y examplePoint \<and>
   point_y examplePoint < roomY exampleCandidate + roomHeight exampleCandidate"
  using checkRoom_accepts_iff[OF checkRoom_example] checkRoom_example
  by (simp add: exampleCandidate_def)


section \<open>Connectivity validator: the acceptance test\<close>

lemma floodFill_reaches_aux:
  assumes run: "floodFill b0 u0 k0 c0 = Some y0"
  shows "\<forall>r. y0 = Inr r \<longrightarrow>
           (\<forall>q \<in> set u0 \<union> set c0. reaches b0 p0 q) \<longrightarrow>
           p0 \<in> set u0 \<union> set c0 \<longrightarrow>
           (\<forall>p \<in> set c0. \<forall>q. adjacentTo b0 p q \<longrightarrow> q \<in> set c0 \<union> set u0) \<longrightarrow>
           set r = {q. reaches b0 p0 q}"
proof (rule floodFill.raw_induct[where P = "\<lambda>b u k c y. \<forall>r. y = Inr r \<longrightarrow>
           (\<forall>q \<in> set u \<union> set c. reaches b p0 q) \<longrightarrow>
           p0 \<in> set u \<union> set c \<longrightarrow>
           (\<forall>p \<in> set c. \<forall>q. adjacentTo b p q \<longrightarrow> q \<in> set c \<union> set u) \<longrightarrow>
           set r = {q. reaches b p0 q}", OF _ run], goal_cases)
  case (1 ff b u k c y)
  note IH = 1(1) and eq = 1(2)
  show ?case
  proof (intro allI impI)
    fix r
    assume y: "y = Inr r"
      and sound: "\<forall>q \<in> set u \<union> set c. reaches b p0 q"
      and p0: "p0 \<in> set u \<union> set c"
      and closed: "\<forall>p \<in> set c. \<forall>q. adjacentTo b p q \<longrightarrow> q \<in> set c \<union> set u"
    show "set r = {q. reaches b p0 q}"
    proof (cases "k < length u")
      case True
      let ?t = "u ! k"
      have t_in: "?t \<in> set u" using True by simp
      show ?thesis
      proof (cases "getAdjacentTiles b ?t")
        case (Inl e)
        with True eq y show ?thesis by auto
      next
        case (Inr adj)
        let ?c = "List.insert ?t c"
        let ?u = "(take k u @ drop (Suc k) u) @ filter (\<lambda>a. a \<notin> set ?c) adj"
        from Inr True eq have rec: "ff b ?u (Suc k) ?c = Some y" by simp
        have adj_iff: "adjacentTo b ?t q \<longleftrightarrow> q \<in> set adj" for q
          by (simp add: adjacentTo_def Inr)
        have "set u = set (take k u @ ?t # drop (Suc k) u)"
          by (rule arg_cong[where f = set], rule id_take_nth_drop[OF True])
        then have rest: "set u \<subseteq> insert ?t (set (take k u @ drop (Suc k) u))"
          by auto
        have sub: "set (take k u @ drop (Suc k) u) \<subseteq> set u"
          by (auto dest: in_set_takeD in_set_dropD)
        have s1: "\<forall>q \<in> set ?u \<union> set ?c. reaches b p0 q"
        proof
          fix q assume q: "q \<in> set ?u \<union> set ?c"
          have rt: "reaches b p0 ?t" using sound t_in by auto
          from q sub consider "q \<in> set u \<union> set c" | "q = ?t" | "q \<in> set adj" by auto
          then show "reaches b p0 q"
          proof cases
            case 1 then show ?thesis using sound by auto
          next
            case 2 then show ?thesis using rt by simp
          next
            case 3 then show ?thesis using rt adj_iff reaches.step by blast
          qed
        qed
        have s2: "p0 \<in> set ?u \<union> set ?c" using p0 rest by auto
        have s3: "\<forall>p \<in> set ?c. \<forall>q. adjacentTo b p q \<longrightarrow> q \<in> set ?c \<union> set ?u"
        proof (intro ballI allI impI)
          fix p q assume p: "p \<in> set ?c" and a: "adjacentTo b p q"
          show "q \<in> set ?c \<union> set ?u"
          proof (cases "p = ?t")
            case True
            with a adj_iff have "q \<in> set adj" by simp
            then show ?thesis by auto
          next
            case False
            with p have "p \<in> set c" by simp
            with closed a have "q \<in> set c \<union> set u" by blast
            with rest show ?thesis by auto
          qed
        qed
        from IH[OF rec] y s1 s2 s3 show ?thesis by blast
      qed
    next
      case False
      show ?thesis
      proof (cases "length u > 0")
        case True
        with False eq have rec: "ff b u 0 c = Some y" by simp
        from IH[OF rec] y sound p0 closed show ?thesis by blast
      next
        case e: False
        with False eq y have r: "r = c" and u: "u = []" by auto
        have "reaches b p0 q \<Longrightarrow> q \<in> set c" for q
        proof (induction rule: reaches.induct)
          case start
          then show ?case using p0 u by simp
        next
          case (step q' r')
          with closed u show ?case by (cases r') auto
        qed
        with sound u r show ?thesis by auto
      qed
    qed
  qed
qed

lemma floodFill_reaches:
  "floodFill b [p] 0 [] = Some (Inr r) \<Longrightarrow> set r = {q. reaches b p q}"
  using floodFill_reaches_aux[of b "[p]" 0 "[]" "Inr r" p] by (simp add: reaches.start)

lemma floodFill_distinct_aux:
  assumes run: "floodFill b0 u0 k0 c0 = Some y0"
  shows "\<forall>r. distinct c0 \<longrightarrow> y0 = Inr r \<longrightarrow> distinct r"
proof (rule floodFill.raw_induct[where P = "\<lambda>b u k c y. \<forall>r. distinct c \<longrightarrow> y = Inr r \<longrightarrow> distinct r", OF _ run], goal_cases)
  case (1 ff b u k c y)
  note IH = 1(1) and eq = 1(2)
  show ?case
  proof (cases "k < length u")
    case True
    show ?thesis
    proof (cases "getAdjacentTiles b (u ! k)")
      case (Inl e)
      with True eq show ?thesis by auto
    next
      case (Inr adj)
      with True eq have rec: "ff b ((take k u @ drop (Suc k) u) @ filter (\<lambda>a. a \<notin> set (List.insert (u ! k) c)) adj)
              (Suc k) (List.insert (u ! k) c) = Some y"
        by simp
      from IH[OF rec] show ?thesis by simp
    qed
  next
    case False
    show ?thesis
    proof (cases "length u > 0")
      case True
      with False eq have rec: "ff b u 0 c = Some y" by simp
      from IH[OF rec] show ?thesis .
    next
      case e: False
      with False eq show ?thesis by auto
    qed
  qed
qed

lemma floodFill_distinct: "floodFill b [p] 0 [] = Some (Inr r) \<Longrightarrow> distinct r"
  using floodFill_distinct_aux[of b "[p]" 0 "[]" "Inr r"] by simp

lemma randomInt_fields:
  "rowCount (snd (randomInt this mn mx)) = rowCount this"
  "colCount (snd (randomInt this mn mx)) = colCount this"
  "board (snd (randomInt this mn mx)) = board this"
  "roomCountMin (snd (randomInt this mn mx)) = roomCountMin this"
  "roomCountMax (snd (randomInt this mn mx)) = roomCountMax this"
  "roomCount (snd (randomInt this mn mx)) = roomCount this"
  "pointLossChance (snd (randomInt this mn mx)) = pointLossChance this"
  "roomLossChance (snd (randomInt this mn mx)) = roomLossChance this"
  "randomPathMax (snd (randomInt this mn mx)) = randomPathMax this"
  "validDungeon (snd (randomInt this mn mx)) = validDungeon this"
  "minRoomSizeX (snd (randomInt this mn mx)) = minRoomSizeX this"
  "minRoomSizeY (snd (randomInt this mn mx)) = minRoomSizeY this"
  "maxRoomSizeX (snd (randomInt this mn mx)) = maxRoomSizeX this"
  "maxRoomSizeY (snd (randomInt this mn mx)) = maxRoomSizeY this"
  "gridList (snd (randomInt this mn mx)) = gridList this"
  "pointList (snd (randomInt this mn mx)) = pointList this"
  "connectionList (snd (randomInt this mn mx)) = connectionList this"
  "roomList (snd (randomInt this mn mx)) = roomList this"
  "specialPoints (snd (randomInt this mn mx)) = specialPoints this"
  by (simp_all add: randomInt_def Let_def split: option.splits)

lemma validateDungeon_result:
  assumes "validateDungeon this = Some (Inr (valid, this'))"
  shows "\<exists>p checked.
           nthE (pointList this) (fst (randomInt this 0 (int (length (pointList this)) - 1))) = Some p \<and>
           floodFill (board this) [pointXY p] 0 [] = Some (Inr checked) \<and>
           this' = snd (randomInt this 0 (int (length (pointList this)) - 1)) \<and>
           (valid \<longleftrightarrow> card (set checked) = floorTileCount (board this) \<and>
                      real (length (roomList this)) \<ge> real (length (gridList this)) / 2)"
proof -
  let ?r = "randomInt this 0 (int (length (pointList this)) - 1)"
  from assms obtain p where p: "nthE (pointList this) (fst ?r) = Some p"
    by (auto simp: validateDungeon_def Let_def split: option.splits)
  from assms p obtain checked where
    f: "floodFill (board this) [pointXY p] 0 [] = Some (Inr checked)"
    by (auto simp: validateDungeon_def Let_def randomInt_fields split: option.splits sum.splits)
  have d: "card (set checked) = length checked"
    using floodFill_distinct[OF f] by (simp add: distinct_card)
  from assms p f have "this' = snd ?r"
    and "valid \<longleftrightarrow> length checked = floorTileCount (board this) \<and>
                      real (length (roomList this)) \<ge> real (length (gridList this)) / 2"
    by (auto simp: validateDungeon_def Let_def randomInt_fields split: if_splits)
  with p f d show ?thesis by auto
qed


lemma regenerate_unfold:
  assumes "regenerate this = Some (Inr this')"
  shows "\<exists>this6 v. validateDungeon this6 = Some (Inr v) \<and> this' = (snd v)\<lparr>validDungeon := fst v\<rparr>"
  using assms
  by (simp add: regenerate_def Let_def split: sum.splits option.splits) (metis prod.collapse)

text \<open>
  C2. An attempt that returns has set \<open>validDungeon\<close> to true exactly when the flood
  fill, started at the element of the point list that \<^verbatim>\<open>randomInt(0, length - 1)\<close>
  selects, has visited a set of tiles (the tiles reachable from the start by steps to one
  of the eight neighbours that is not a wall) whose size is the number of tiles of the
  board that are not walls, and the number of rooms is at least the number of grids
  divided by two, as a real number.
\<close>

theorem regenerate_valid_iff:
  assumes "regenerate this = Some (Inr this')"
  shows "\<exists>before p checked.
     nthE (pointList this') (fst (randomInt before 0 (int (length (pointList this')) - 1))) = Some p \<and>
     floodFill (board this') [pointXY p] 0 [] = Some (Inr checked) \<and>
     set checked = {q. reaches (board this') (pointXY p) q} \<and>
     (validDungeon this' \<longleftrightarrow>
        card (set checked) = floorTileCount (board this') \<and>
        real (length (gridList this')) / 2 \<le> real (length (roomList this')))"
proof -
  from regenerate_unfold[OF assms] obtain this6 v where
    v: "validateDungeon this6 = Some (Inr v)" and t: "this' = (snd v)\<lparr>validDungeon := fst v\<rparr>"
    by blast
  from v have v': "validateDungeon this6 = Some (Inr (fst v, snd v))" by simp
  from validateDungeon_result[OF v'] obtain p checked where
    p: "nthE (pointList this6) (fst (randomInt this6 0 (int (length (pointList this6)) - 1))) = Some p" and
    f: "floodFill (board this6) [pointXY p] 0 [] = Some (Inr checked)" and
    s: "snd v = snd (randomInt this6 0 (int (length (pointList this6)) - 1))" and
    i: "fst v \<longleftrightarrow> card (set checked) = floorTileCount (board this6) \<and>
                      real (length (roomList this6)) \<ge> real (length (gridList this6)) / 2"
    by blast
  have fr: "board this' = board this6" "pointList this' = pointList this6"
    "roomList this' = roomList this6" "gridList this' = gridList this6" "validDungeon this' = fst v"
    unfolding t s by (simp_all add: randomInt_fields)
  show ?thesis
    unfolding fr using p f i floodFill_reaches[OF f] by blast
qed

lemma smallRoom_run:
  "(case regenerate smallRoomInstance of
      Some (Inr d) \<Rightarrow>
        validDungeon d \<and>
        roomList d =
          [\<lparr>room_x = 14, room_y = 3, room_width = 3, room_height = 3,
            room_grid = 0, room_onPoint = True, room_type = Some RoomEXIT\<rparr>,
           \<lparr>room_x = 13, room_y = 15, room_width = 3, room_height = 3,
            room_grid = 1, room_onPoint = True, room_type = Some RoomENTRY\<rparr>] \<and>
        specialPoints d = \<lparr>sp_entry = Some (14, 16), sp_exit = Some (15, 4)\<rparr>
    | _ \<Rightarrow> False)"
  by code_simp

theorem regenerate_valid_iff_witness:
  "\<exists>this' p checked.
     regenerate smallRoomInstance = Some (Inr this') \<and>
     validDungeon this' \<and>
     floodFill (board this') [pointXY p] 0 [] = Some (Inr checked) \<and>
     card (set checked) = floorTileCount (board this') \<and>
     real (length (gridList this')) / 2 \<le> real (length (roomList this'))"
proof -
  from smallRoom_run obtain this' where
    r: "regenerate smallRoomInstance = Some (Inr this')" and v: "validDungeon this'"
    by (auto split: option.splits sum.splits)
  from regenerate_valid_iff[OF r] v r show ?thesis by blast
qed

section \<open>What an attempt rebuilds\<close>

lemma stale_run:
  "(case Dungeon twoRoomOptions (\<lambda>_. 0) of
      Some (Inr d) \<Rightarrow>
        length (roomList d) = 2 \<and>
        specialPoints d = \<lparr>sp_entry = Some (15, 13), sp_exit = Some (7, 7)\<rparr> \<and>
        getTileAt d 15 13 = Inr (Some TileENTRY) \<and>
        (case regenerate d of
           Some (Inr d') \<Rightarrow>
             validDungeon d' \<and> length (roomList d') = 1 \<and>
             specialPoints d' = \<lparr>sp_entry = Some (15, 13), sp_exit = Some (7, 7)\<rparr> \<and>
             getTileAt d' 15 13 = Inr (Some TileWALL) \<and>
             getTileAt d' 7 7 = Inr (Some TileWALL)
         | _ \<Rightarrow> False)
    | _ \<Rightarrow> False)"
  by code_simp

lemma stale_first:
  obtains d where
    "Dungeon twoRoomOptions (\<lambda>_. 0) = Some (Inr d)"
    "length (roomList d) = 2"
    "specialPoints d = \<lparr>sp_entry = Some (15, 13), sp_exit = Some (7, 7)\<rparr>"
    "case regenerate d of
       Some (Inr d') \<Rightarrow>
         validDungeon d' \<and> length (roomList d') = 1 \<and>
         specialPoints d' = \<lparr>sp_entry = Some (15, 13), sp_exit = Some (7, 7)\<rparr> \<and>
         getTileAt d' 15 13 = Inr (Some TileWALL) \<and>
         getTileAt d' 7 7 = Inr (Some TileWALL)
     | _ \<Rightarrow> False"
proof (cases "Dungeon twoRoomOptions (\<lambda>_. 0)")
  case None
  with stale_run show ?thesis by simp
next
  case (Some a)
  show ?thesis
  proof (cases a)
    case (Inl e)
    with Some stale_run show ?thesis by simp
  next
    case (Inr d)
    with Some stale_run that[of d] show ?thesis by simp
  qed
qed

text \<open>
  C8. The claim: every call of \<^verbatim>\<open>regenerate()\<close> rebuilds the special entry and exit
  points with everything else, so that an attempt with fewer than two rooms does not
  keep the coordinates of an earlier attempt. \<^verbatim>\<open>regenerate()\<close> resets the board and the
  four lists, but not \<^verbatim>\<open>specialPoints\<close>: the dungeon built from the options below has
  two rooms, and a call of \<^verbatim>\<open>regenerate()\<close> on it gives a valid dungeon with one room
  whose \<^verbatim>\<open>specialPoints\<close> are still those of the first dungeon, on tiles that are
  walls now.
\<close>

theorem regenerate_keeps_stale_specialPoints:
  "\<exists>d d'. Dungeon twoRoomOptions (\<lambda>_. 0) = Some (Inr d) \<and>
           specialPoints d = \<lparr>sp_entry = Some (15, 13), sp_exit = Some (7, 7)\<rparr> \<and>
           regenerate d = Some (Inr d') \<and>
           length (roomList d') = 1 \<and>
           specialPoints d' = \<lparr>sp_entry = Some (15, 13), sp_exit = Some (7, 7)\<rparr> \<and>
           getTileAt d' 15 13 = Inr (Some TileWALL) \<and>
           getTileAt d' 7 7 = Inr (Some TileWALL)"
proof -
  from stale_first obtain d where
    d: "Dungeon twoRoomOptions (\<lambda>_. 0) = Some (Inr d)"
      "specialPoints d = \<lparr>sp_entry = Some (15, 13), sp_exit = Some (7, 7)\<rparr>" and
    r: "case regenerate d of
       Some (Inr d') \<Rightarrow>
         validDungeon d' \<and> length (roomList d') = 1 \<and>
         specialPoints d' = \<lparr>sp_entry = Some (15, 13), sp_exit = Some (7, 7)\<rparr> \<and>
         getTileAt d' 15 13 = Inr (Some TileWALL) \<and>
         getTileAt d' 7 7 = Inr (Some TileWALL)
     | _ \<Rightarrow> False"
    by blast
  from r obtain d' where "regenerate d = Some (Inr d')"
    by (cases "regenerate d") (auto split: sum.splits)
  with r d show ?thesis by auto
qed

section \<open>The random source in range\<close>

lemma jsRem_nonneg: "0 \<le> a \<Longrightarrow> jsRem a 233280 = a mod 233280"
  by (simp add: jsRem_def)

lemma halfMinSubnormal_small: "halfMinSubnormal \<le> 1 / 2 ^ 120"
proof -
  have "(2::real) powi (- 1075) \<le> 2 powi (- 120)"
    by (rule power_int_increasing) simp_all
  also have "\<dots> = 1 / 2 ^ 120" using powi_neg_nat[of "- 120"] by simp
  finally show ?thesis by (simp only: halfMinSubnormal_def)
qed


lemma double_below_one:
  assumes d: "r64 u = u" and lo: "0 \<le> u" and hi: "u < 1"
  shows "u \<le> 1 - 1 / 2 ^ 53"
proof (cases "u \<le> 1 / 2")
  case True
  then show ?thesis by simp
next
  case False
  then have half: "1 / 2 < u" by simp
  then have nz: "u \<noteq> 0" by simp
  have "\<lfloor>log 2 \<bar>u\<bar>\<rfloor> = - 1"
    using floor_log_eq_powr_iff[of "\<bar>u\<bar>" 2 "- 1"] half hi
    by (simp add: powr_minus field_simps)
  then have e: "expo u = - 1" by (simp add: expo_def)
  let ?m = "nearestEven (u / 2 powi (- 53))"
  have p: "(2::real) powi (- 53) = 1 / 2 ^ 53" using powi_neg_nat[of "- 53"] by simp
  have "u = real_of_int ?m * 2 powi (- 53)"
    using d r64_eq[OF nz] unfolding e by simp
  then have u: "u = real_of_int ?m / 2 ^ 53" unfolding p by simp
  with hi have "real_of_int ?m < real_of_int (2 ^ 53)" by (simp add: field_simps)
  then have "?m < 2 ^ 53" by (simp only: of_int_less_iff)
  then have "?m \<le> 2 ^ 53 - 1" by simp
  then have "real_of_int ?m \<le> real_of_int (2 ^ 53 - 1)" by (simp only: of_int_le_iff)
  then have "real_of_int ?m / 2 ^ 53 \<le> real_of_int (2 ^ 53 - 1) / 2 ^ 53"
    by (rule divide_right_mono) simp
  with u show ?thesis by (simp add: field_simps)
qed

lemma draw_in_range:
  assumes lo: "0 \<le> a" and hi: "a \<le> 1 - 1 / 2 ^ 53" and n: "1 \<le> n"
  shows "0 \<le> \<lfloor>r64 (a * real_of_int n)\<rfloor> \<and> \<lfloor>r64 (a * real_of_int n)\<rfloor> < n"
proof -
  let ?y = "a * real_of_int n"
  have nr: "1 \<le> real_of_int n" using n by simp
  have y0: "0 \<le> ?y" using lo nr by simp
  have "0 \<le> r64 ?y" by (rule r64_nonneg[OF y0])
  then have low: "0 \<le> \<lfloor>r64 ?y\<rfloor>" by simp
  have A: "?y \<le> (1 - 1 / 2 ^ 53) * real_of_int n"
    using hi nr by (intro mult_right_mono) simp_all
  have "?y * (1 + 1 / 2 ^ 53) \<le> (1 - 1 / 2 ^ 53) * real_of_int n * (1 + 1 / 2 ^ 53)"
    by (rule mult_right_mono[OF A]) simp
  also have "\<dots> = real_of_int n - real_of_int n / 2 ^ 106"
    by (simp add: field_simps)
  finally have "r64 ?y \<le> real_of_int n - real_of_int n / 2 ^ 106 + 1 / 2 ^ 120"
    using r64_upper[OF y0] halfMinSubnormal_small by linarith
  moreover have "(1::real) / 2 ^ 120 < real_of_int n / 2 ^ 106"
  proof -
    have "(1::real) / 2 ^ 120 < 1 / 2 ^ 106" by simp
    also have "\<dots> \<le> real_of_int n / 2 ^ 106" using nr by (intro divide_right_mono) simp_all
    finally show ?thesis .
  qed
  ultimately have "r64 ?y < real_of_int n" by linarith
  then have "\<lfloor>r64 ?y\<rfloor> < n" by (simp add: floor_less_iff)
  with low show ?thesis by simp
qed

lemma quotient_in_range:
  assumes "0 \<le> s" and "s < 233280"
  shows "0 \<le> r64 (real_of_int s / 233280) \<and> r64 (real_of_int s / 233280) \<le> 1 - 1 / 2 ^ 53"
proof -
  let ?x = "real_of_int s / 233280"
  have x0: "0 \<le> ?x" using assms(1) by simp
  from assms(2) have "s \<le> 233279" by simp
  then have "real_of_int s \<le> 233279" by linarith
  then have x1: "?x \<le> 233279 / 233280" by simp
  have "?x * (1 + 1 / 2 ^ 53) \<le> 233279 / 233280 * (1 + 1 / 2 ^ 53)"
    by (rule mult_right_mono[OF x1]) simp
  then have "r64 ?x \<le> 233279 / 233280 * (1 + 1 / 2 ^ 53) + 1 / 2 ^ 120"
    using r64_upper[OF x0] halfMinSubnormal_small by linarith
  also have "\<dots> \<le> 1 - 1 / 2 ^ 53" by simp
  finally show ?thesis using r64_nonneg[OF x0] by simp
qed


lemma seed_nonneg:
  assumes "0 \<le> sd"
  shows "0 \<le> jsRem \<lfloor>r64 (r64 (real_of_int sd * 9301) + 49297)\<rfloor> 233280"
proof -
  have "0 \<le> r64 (real_of_int sd * 9301)" using assms by (intro r64_nonneg) simp
  then have "0 \<le> r64 (r64 (real_of_int sd * 9301) + 49297)" by (intro r64_nonneg) simp
  then have "0 \<le> \<lfloor>r64 (r64 (real_of_int sd * 9301) + 49297)\<rfloor>" by simp
  then show ?thesis by (simp add: jsRem_nonneg)
qed

lemma jsRem_less: "jsRem a 233280 < 233280"
proof (cases "a < 0")
  case True
  have "0 \<le> (- a) mod 233280" by simp
  then have "- ((- a) mod 233280) < 233280" by linarith
  with True show ?thesis by (simp add: jsRem_def)
next
  case False
  have "a mod 233280 < 233280" by simp
  with False show ?thesis by (simp add: jsRem_def)
qed

lemma randomInt_range:
  assumes "rngOk this" and "mn \<le> mx"
  shows "mn \<le> fst (randomInt this mn mx) \<and> fst (randomInt this mn mx) \<le> mx"
proof (cases "seed this")
  case None
  let ?u = "mathRandom this 0"
  from assms(1) None have u: "0 \<le> ?u" "?u < 1" "r64 ?u = ?u" by (simp_all add: rngOk_def)
  have n: "1 \<le> mx - mn + 1" using assms(2) by simp
  from draw_in_range[OF u(1) double_below_one[OF u(3,1,2)] n]
  show ?thesis using None by (simp add: randomInt_def)
next
  case (Some sd)
  let ?s = "jsRem \<lfloor>r64 (r64 (real_of_int sd * 9301) + 49297)\<rfloor> 233280"
  from assms(1) Some have sd: "0 \<le> sd" by (simp add: rngOk_def)
  have s: "0 \<le> ?s" "?s < 233280" using seed_nonneg[OF sd] jsRem_less by simp_all
  have n: "1 \<le> mx - mn + 1" using assms(2) by simp
  from quotient_in_range[OF s] have "0 \<le> r64 (real_of_int ?s / 233280)"
    "r64 (real_of_int ?s / 233280) \<le> 1 - 1 / 2 ^ 53" by simp_all
  from draw_in_range[OF this n]
  show ?thesis using Some by (simp add: randomInt_def Let_def)
qed

lemma rngOk_randomInt: "rngOk this \<Longrightarrow> rngOk (snd (randomInt this mn mx))"
  by (auto simp: rngOk_def randomInt_def Let_def seed_nonneg split: option.splits)

















section \<open>Entry and exit rooms\<close>























subsection \<open>What an attempt keeps\<close>













subsection \<open>A kept connection ends the draws of a negative seed\<close>




















section \<open>Room placer: the exhausted placement loop\<close>

subsection \<open>The test of a candidate returns on a full board\<close>

lemma tileTypeAt_wf:
  assumes "wfBoard s" and "0 \<le> i" "i < colCount s" and "0 \<le> j" "j < rowCount s"
  shows "\<exists>t. tileTypeAt (board s) i j = Inr t"
proof -
  from assms have "int (length (board s)) = colCount s" by (simp add: wfBoard_def)
  with assms(2,3) have len: "nat i < length (board s)" by linarith
  then have col: "nthE (board s) i = Some (board s ! nat i)"
    using assms(2) by (simp add: nthE_def)
  from assms(1) len have d: "denseColumn (rowCount s) (board s ! nat i)"
    by (simp add: wfBoard_def list_all_length)
  then have "rowCount s \<le> int (length (cells (board s ! nat i)))"
    by (simp add: denseColumn_def)
  with assms(4,5) have jl: "nat j < length (cells (board s ! nat i))" by linarith
  from d have "list_all (\<lambda>v. v \<noteq> None) (take (nat (rowCount s)) (cells (board s ! nat i)))"
    by (simp add: denseColumn_def)
  moreover have "nat j < length (take (nat (rowCount s)) (cells (board s ! nat i)))"
    using assms(4,5) jl by simp
  ultimately have "take (nat (rowCount s)) (cells (board s ! nat i)) ! nat j \<noteq> None"
    unfolding list_all_length by blast
  then have "cells (board s ! nat i) ! nat j \<noteq> None"
    using assms(4,5) by simp
  then obtain t where "cells (board s ! nat i) ! nat j = Some t" by auto
  then have "colGet (board s ! nat i) j = Some t"
    using assms(4) jl by (simp add: colGet_def nthE_def)
  then show ?thesis
    using col by (simp add: tileTypeAt_def boardGet_def bindE_def deref_def)
qed

lemma checkColumn_total:
  assumes "wfBoard s"
  shows "\<exists>st'. checkColumn s grid (Some p) i j jEnd st = Inr st'"
  using assms
proof (induction s grid "Some p" i j jEnd st rule: checkColumn.induct)
  case (1 s grid i j jEnd st)
  show ?case
  proof (cases "j < jEnd")
    case False
    then show ?thesis by (simp add: checkColumn.simps)
  next
    case True
    show ?thesis
    proof (cases "i < 0 \<or> i \<ge> colCount s \<or> j < 0 \<or> j \<ge> rowCount s")
      case oob: True
      with True show ?thesis by (subst checkColumn.simps) auto
    next
      case inb: False
      then obtain t where t: "tileTypeAt (board s) i j = Inr t"
        using tileTypeAt_wf[OF "1.prems", of i j] by auto
      show ?thesis
      proof (cases "gt0 t \<or> i = grid_x grid \<or> i = grid_x grid + grid_width grid - 1 \<or>
                     j = grid_y grid \<or> j = grid_y grid + grid_height grid - 1")
        case True
        with \<open>j < jEnd\<close> inb t show ?thesis by (subst checkColumn.simps) auto
      next
        case False
        from "1.hyps"[OF \<open>j < jEnd\<close> inb t _ _ refl "1.prems"] False
        obtain st' where "checkColumn s grid (Some p) i (j + 1) jEnd
              (if i = point_x p \<and> j = point_y p then (fst st, True) else st) = Inr st'"
          by auto
        with \<open>j < jEnd\<close> inb t False show ?thesis by (subst checkColumn.simps) auto
      qed
    qed
  qed
qed

lemma forUptoE_total:
  assumes "\<And>i s. \<exists>s'. body i s = Inr s'"
  shows "\<exists>s'. forUptoE a n body s = Inr s'"
  using assms
proof (induction a n body s rule: forUptoE.induct)
  case (1 i n body s)
  show ?case
  proof (cases "i < n")
    case True
    from "1.prems" obtain s1 where s1: "body i s = Inr s1" by blast
    from "1.IH"[OF True s1 "1.prems"] obtain s' where "forUptoE (i + 1) n body s1 = Inr s'" by blast
    with True s1 show ?thesis by (subst forUptoE.simps) simp
  next
    case False
    then show ?thesis by (subst forUptoE.simps) simp
  qed
qed

lemma checkRoom_total:
  "wfBoard s \<Longrightarrow> \<exists>st. checkRoom s grid (Some p) c = Inr st"
  unfolding checkRoom_def by (rule forUptoE_total) (rule checkColumn_total)

subsection \<open>Drawing a room\<close>

lemma colGet_colSet: "colGet (colSet c j t) j' = (if j' = j then Some t else colGet c j')"
proof (cases "j < 0")
  case True
  then show ?thesis by (auto simp: colGet_def colSet_def)
next
  case nonneg: False
  show ?thesis
  proof (cases "j < int (length (cells c))")
    case True
    with nonneg show ?thesis
      by (auto simp: colGet_def colSet_def nthE_def nth_list_update)
  next
    case False
    define xs where "xs = cells c @ replicate (nat j - length (cells c)) None @ [Some t]"
    have set: "colSet c j t = c\<lparr>cells := xs\<rparr>"
      using False nonneg by (simp add: colSet_def xs_def)
    have len: "int (length xs) = j + 1" using False nonneg by (simp add: xs_def)
    have ge: "length (cells c) \<le> nat j" using False nonneg by linarith
    have "xs ! nat j = (replicate (nat j - length (cells c)) None @ [Some t]) ! (nat j - length (cells c))"
      using ge by (simp add: xs_def nth_append)
    also have "\<dots> = Some t"
      using nth_append_length[of "replicate (nat j - length (cells c)) None" "Some t" "[]"] by simp
    finally have at: "xs ! nat j = Some t" .
    have other: "xs ! k = (if k < length (cells c) then cells c ! k else None)" if "k < nat j" for k
      using that False nonneg by (auto simp: xs_def nth_append)
    show ?thesis
    proof (cases "j' < 0")
      case True
      with nonneg show ?thesis unfolding set by (simp add: colGet_def)
    next
      case j'nn: False
      consider "j' = j" | "j' < j" | "j' > j" by linarith
      then show ?thesis
      proof cases
        case 1
        have "nthE xs j = Some (Some t)" using nonneg len at by (simp add: nthE_def)
        with 1 nonneg show ?thesis unfolding set by (simp add: colGet_def)
      next
        case 2
        with j'nn have k: "nat j' < nat j" by linarith
        have "nthE xs j' = Some (if nat j' < length (cells c) then cells c ! nat j' else None)"
          using j'nn 2 len other[OF k] by (simp add: nthE_def)
        moreover have "nthE (cells c) j' = (if nat j' < length (cells c) then Some (cells c ! nat j') else None)"
          using j'nn by (auto simp: nthE_def)
        ultimately show ?thesis using 2 j'nn unfolding set by (simp add: colGet_def)
      next
        case 3
        have "nthE xs j' = None" using 3 len by (simp add: nthE_def)
        moreover have "nthE (cells c) j' = None" using 3 False by (simp add: nthE_def)
        ultimately show ?thesis using 3 j'nn unfolding set by (simp add: colGet_def)
      qed
    qed
  qed
qed

lemma boardSet_ok:
  "0 \<le> i \<Longrightarrow> i < int (length b) \<Longrightarrow> \<exists>b'. boardSet b i j t = Inr b' \<and> length b' = length b"
  by (simp add: boardSet_def nthE_def)

lemma boardSet_length: "boardSet b i j t = Inr b' \<Longrightarrow> length b' = length b"
  by (auto simp: boardSet_def split: option.splits)

lemma boardGet_boardSet:
  assumes "boardSet b i j t = Inr b'"
  shows "boardGet b' i' j' = (if i' = i \<and> j' = j then Inr (Some t) else boardGet b i' j')"
proof -
  from assms have i: "0 \<le> i" "i < int (length b)" and b': "b' = b[nat i := colSet (b ! nat i) j t]"
    by (auto simp: boardSet_def nthE_def split: if_splits)
  show ?thesis
  proof (cases "0 \<le> i' \<and> i' < int (length b)")
    case False
    then show ?thesis using i by (auto simp: boardGet_def nthE_def b')
  next
    case True
    show ?thesis
    proof (cases "i' = i")
      case True
      with i show ?thesis by (simp add: boardGet_def nthE_def b' colGet_colSet)
    next
      case False
      with True i have "nat i' \<noteq> nat i" by linarith
      with True False show ?thesis by (simp add: boardGet_def nthE_def b')
    qed
  qed
qed

lemma stampColumn:
  assumes "forUptoE j n (\<lambda>y b. boardSet b i y t) b = Inr b'"
  shows "length b' = length b \<and>
         (\<forall>i' j'. boardGet b' i' j' =
            (if i' = i \<and> j \<le> j' \<and> j' < n then Inr (Some t) else boardGet b i' j'))"
  using assms
proof (induction j n "\<lambda>y b. boardSet b i y t" b rule: forUptoE.induct)
  case (1 j n b)
  show ?case
  proof (cases "j < n")
    case False
    with "1.prems" show ?thesis by (subst (asm) forUptoE.simps) auto
  next
    case True
    from "1.prems" True obtain b1 where
      w: "boardSet b i j t = Inr b1" and r: "forUptoE (j + 1) n (\<lambda>y b. boardSet b i y t) b1 = Inr b'"
      by (subst (asm) forUptoE.simps) (auto split: sum.splits)
    note IH = "1.hyps"[OF True w r]
    show ?thesis
      using IH boardGet_boardSet[OF w] boardSet_length[OF w] True by auto
  qed
qed

lemma stampColumn_total:
  assumes "0 \<le> i" and "i < int (length b)"
  shows "\<exists>b'. forUptoE j n (\<lambda>y b. boardSet b i y t) b = Inr b'"
  using assms
proof (induction j n "\<lambda>y b. boardSet b i y t" b rule: forUptoE.induct)
  case (1 j n b)
  show ?case
  proof (cases "j < n")
    case False
    then show ?thesis by (subst forUptoE.simps) simp
  next
    case True
    from boardSet_ok[OF "1.prems"] obtain b1 where
      w: "boardSet b i j t = Inr b1" and l: "length b1 = length b" by blast
    from "1.hyps"[OF True w] "1.prems" l obtain b' where
      "forUptoE (j + 1) n (\<lambda>y b. boardSet b i y t) b1 = Inr b'" by auto
    with True w show ?thesis by (subst forUptoE.simps) simp
  qed
qed

lemma stampRows:
  assumes "forUptoE i m (\<lambda>x. forUptoE j n (\<lambda>y b. boardSet b x y t)) b = Inr b'"
  shows "length b' = length b \<and>
         (\<forall>i' j'. boardGet b' i' j' =
            (if i \<le> i' \<and> i' < m \<and> j \<le> j' \<and> j' < n then Inr (Some t) else boardGet b i' j'))"
  using assms
proof (induction i m "\<lambda>x. forUptoE j n (\<lambda>y b. boardSet b x y t)" b rule: forUptoE.induct)
  case (1 i m b)
  show ?case
  proof (cases "i < m")
    case False
    with "1.prems" show ?thesis by (subst (asm) forUptoE.simps) auto
  next
    case True
    from "1.prems" True obtain b1 where
      c: "forUptoE j n (\<lambda>y b. boardSet b i y t) b = Inr b1" and
      r: "forUptoE (i + 1) m (\<lambda>x. forUptoE j n (\<lambda>y b. boardSet b x y t)) b1 = Inr b'"
      by (subst (asm) forUptoE.simps) (auto split: sum.splits)
    note IH = "1.hyps"[OF True c r]
    note C = stampColumn[OF c]
    show ?thesis
      using IH C True by auto
  qed
qed

lemma stampRows_total:
  assumes "0 \<le> i" and "m \<le> int (length b)"
  shows "\<exists>b'. forUptoE i m (\<lambda>x. forUptoE j n (\<lambda>y b. boardSet b x y t)) b = Inr b'"
  using assms
proof (induction i m "\<lambda>x. forUptoE j n (\<lambda>y b. boardSet b x y t)" b rule: forUptoE.induct)
  case (1 i m b)
  show ?case
  proof (cases "i < m")
    case False
    then show ?thesis by (subst forUptoE.simps) simp
  next
    case True
    with "1.prems" have "i < int (length b)" by simp
    from stampColumn_total[OF "1.prems"(1) this] obtain b1 where
      c: "forUptoE j n (\<lambda>y b. boardSet b i y t) b = Inr b1" by blast
    have l: "length b1 = length b" using stampColumn[OF c] by simp
    from "1.hyps"[OF True c] "1.prems" l obtain b' where
      "forUptoE (i + 1) m (\<lambda>x. forUptoE j n (\<lambda>y b. boardSet b x y t)) b1 = Inr b'" by auto
    with True c show ?thesis by (subst forUptoE.simps) simp
  qed
qed

lemma stampRoom_effect:
  assumes "stampRoom b c t = Inr b'"
  shows "boardGet b' i j =
           (if roomX c \<le> i \<and> i < roomX c + roomWidth c \<and> roomY c \<le> j \<and> j < roomY c + roomHeight c
            then Inr (Some t) else boardGet b i j)"
  using stampRows[OF assms[unfolded stampRoom_def]] by simp

lemma stampRoom_total:
  "0 \<le> roomX c \<Longrightarrow> roomX c + roomWidth c \<le> int (length b) \<Longrightarrow> \<exists>b'. stampRoom b c t = Inr b'"
  unfolding stampRoom_def by (rule stampRows_total)

subsection \<open>Grids too narrow for a room off their border\<close>

lemma wfBoard_cong:
  "wfBoard s \<Longrightarrow> board t = board s \<Longrightarrow> rowCount t = rowCount s \<Longrightarrow> colCount t = colCount s \<Longrightarrow> wfBoard t"
  by (simp add: wfBoard_def)

lemma sameSetup_refl: "rngOk s \<Longrightarrow> sameSetup s s"
  by (simp add: sameSetup_def)

lemma sameSetup_randomInt: "sameSetup s t \<Longrightarrow> sameSetup s (snd (randomInt t mn mx))"
  by (simp add: sameSetup_def randomInt_fields rngOk_randomInt)

lemma sameSetup_sampleRoom: "sameSetup s t \<Longrightarrow> sameSetup s (snd (sampleRoom t grid c))"
  by (simp add: sampleRoom_def Let_def sameSetup_randomInt)

lemma sampleRoom_flags:
  "validPosition (fst (sampleRoom t grid c)) = validPosition c"
  "attempts (fst (sampleRoom t grid c)) = attempts c"
  "onPoint (fst (sampleRoom t grid c)) = onPoint c"
  by (simp_all add: sampleRoom_def Let_def)

lemma sampleRoom_fillsWidth:
  assumes rng: "rngOk t" and fit: "roomsFit t grid" and narrow: "grid_width grid < minRoomSizeX t + 2"
  shows "fillsWidth grid (fst (sampleRoom t grid c))"
proof -
  let ?rw = "randomInt t (minRoomSizeX t) (maxRoomSizeX t)"
  let ?rh = "randomInt (snd ?rw) (minRoomSizeY t) (maxRoomSizeY t)"
  let ?rx = "randomInt (snd ?rh) (grid_x grid) (grid_x grid + grid_width grid - fst ?rw)"
  from fit have f: "1 \<le> minRoomSizeX t" "minRoomSizeX t \<le> maxRoomSizeX t"
    "maxRoomSizeX t \<le> grid_width grid" "1 \<le> minRoomSizeY t" "minRoomSizeY t \<le> maxRoomSizeY t"
    by (simp_all add: roomsFit_def)
  have w: "minRoomSizeX t \<le> fst ?rw \<and> fst ?rw \<le> maxRoomSizeX t"
    by (rule randomInt_range[OF rng f(2)])
  have r1: "rngOk (snd ?rw)" by (rule rngOk_randomInt[OF rng])
  have h: "minRoomSizeY t \<le> fst ?rh \<and> fst ?rh \<le> maxRoomSizeY t"
    by (rule randomInt_range[OF r1 f(5)])
  have r2: "rngOk (snd ?rh)" by (rule rngOk_randomInt[OF r1])
  have "grid_x grid \<le> grid_x grid + grid_width grid - fst ?rw" using w f(3) by linarith
  from randomInt_range[OF r2 this]
  have x: "grid_x grid \<le> fst ?rx \<and> fst ?rx \<le> grid_x grid + grid_width grid - fst ?rw" .
  show ?thesis
    using w h x f(1,4) narrow by (simp add: fillsWidth_def sampleRoom_def Let_def)
qed

lemma fillsWidth_border:
  assumes "fillsWidth grid c"
  shows "\<not> cellAllowed s grid (roomX c) (roomY c) \<or>
         \<not> cellAllowed s grid (roomX c + roomWidth c - 1) (roomY c)"
proof (cases "roomX c = grid_x grid")
  case True
  then show ?thesis by (simp add: cellAllowed_def)
next
  case False
  with assms have "roomX c + roomWidth c - 1 = grid_x grid + grid_width grid - 1"
    by (simp add: fillsWidth_def)
  then show ?thesis by (simp add: cellAllowed_def)
qed

lemma checkRoom_fillsWidth:
  assumes wf: "wfBoard t" and fw: "fillsWidth grid c"
  shows "\<exists>st. checkRoom t grid (Some p) c = Inr st \<and> \<not> fst st"
proof -
  from checkRoom_total[OF wf] obtain st where st: "checkRoom t grid (Some p) c = Inr st" by blast
  let ?all = "\<forall>i' j'. roomX c \<le> i' \<and> i' < roomX c + roomWidth c \<and>
                roomY c \<le> j' \<and> j' < roomY c + roomHeight c \<longrightarrow> cellAllowed t grid i' j'"
  from checkRoom_columns[OF st[unfolded checkRoom_def]] have fst: "fst st = ?all" by simp
  from fw have pos: "1 \<le> roomWidth c" "1 \<le> roomHeight c" by (simp_all add: fillsWidth_def)
  have "\<not> ?all"
  proof
    assume all: ?all
    from all pos have "cellAllowed t grid (roomX c) (roomY c)" by simp
    moreover from all pos have "cellAllowed t grid (roomX c + roomWidth c - 1) (roomY c)" by simp
    ultimately show False using fillsWidth_border[OF fw, of t] by simp
  qed
  with fst st show ?thesis by simp
qed

lemma placeLoop_exhausts:
  assumes "wfBoard s" and "roomsFit s grid" and "grid_width grid < minRoomSizeX s + 2"
    and "sameSetup s (snd cs)" and "fillsWidth grid (fst cs)"
    and "\<not> validPosition (fst cs)" and "\<not> onPoint (fst cs)" and "attempts (fst cs) \<le> 1000"
  shows "\<exists>c t. placeLoop grid (Some p) cs = Inr (c, t) \<and> sameSetup s t \<and> fillsWidth grid c \<and>
           \<not> validPosition c \<and> \<not> onPoint c \<and> attempts c = 1000"
  using assms
proof (induction grid "Some p" cs rule: placeLoop.induct)
  case (1 grid cs)
  show ?case
  proof (cases "attempts (fst cs) < 1000")
    case False
    with "1.prems" have "placeLoop grid (Some p) cs = Inr (fst cs, snd cs)"
      by (subst placeLoop.simps) simp
    moreover have "attempts (fst cs) = 1000" using False "1.prems" by simp
    ultimately show ?thesis using "1.prems" by blast
  next
    case True
    with "1.prems" have go: "\<not> validPosition (fst cs) \<and> attempts (fst cs) < 1000" by simp
    from "1.prems" have same: "sameSetup s (snd cs)" by simp
    then have wf: "wfBoard (snd cs)"
      using "1.prems"(1) by (auto intro: wfBoard_cong simp: sameSetup_def)
    from checkRoom_fillsWidth[OF wf "1.prems"(5)] obtain st where
      st: "checkRoom (snd cs) grid (Some p) (fst cs) = Inr st" and no: "\<not> fst st" by blast
    from no have again: "\<not> fst st \<or> \<not> snd st" by simp
    let ?c = "(fst cs)\<lparr>validPosition := False, attempts := attempts (fst cs) + 1, onPoint := False\<rparr>"
    let ?cs = "sampleRoom (snd cs) grid ?c"
    have unfold: "placeLoop grid (Some p) cs = placeLoop grid (Some p) ?cs"
      using go st again by (subst placeLoop.simps) simp
    from same have rng: "rngOk (snd cs)" and fit: "roomsFit (snd cs) grid"
      and narrow: "grid_width grid < minRoomSizeX (snd cs) + 2"
      using "1.prems"(2,3) by (simp_all add: sameSetup_def roomsFit_def)
    have a: "sameSetup s (snd ?cs)" by (rule sameSetup_sampleRoom[OF same])
    have b: "fillsWidth grid (fst ?cs)" by (rule sampleRoom_fillsWidth[OF rng fit narrow])
    have c: "\<not> validPosition (fst ?cs)" "\<not> onPoint (fst ?cs)" "attempts (fst ?cs) \<le> 1000"
      using True by (simp_all add: sampleRoom_flags)
    from "1.hyps"[OF go st again "1.prems"(1,2,3) a b c]
    show ?thesis unfolding unfold .
  qed
qed

lemma regenerate_beforeRooms:
  "regenerate this0 =
     (case beforeRooms this0 of
        Inl e \<Rightarrow> Some (Inl e)
      | Inr this4 \<Rightarrow>
         (case createRooms this4 of
            Inl e \<Rightarrow> Some (Inl e)
          | Inr this5 \<Rightarrow>
             (case addRandomPaths this5 of
                Inl e \<Rightarrow> Some (Inl e)
              | Inr this6 \<Rightarrow>
                 (case validateDungeon this6 of
                    None \<Rightarrow> None
                  | Some (Inl e) \<Rightarrow> Some (Inl e)
                  | Some (Inr v) \<Rightarrow> Some (Inr ((snd v)\<lparr>validDungeon := fst v\<rparr>))))))"
  by (simp add: regenerate_def beforeRooms_def Let_def bindE_def split: sum.splits)

lemma placeRoom_narrow:
  assumes wf: "wfBoard s" and rng: "rngOk s" and fit: "roomsFit s grid"
    and narrow: "grid_width grid < minRoomSizeX s + 2"
    and pt: "nthE (filter (\<lambda>q. point_gridIndex q = grid_index grid) (pointList s)) 0 = Some p"
    and conn: "filterE (touchesGrid grid) (connectionList s) = Inr vs" "vs \<noteq> []"
    and loss: "roomLossChance s \<le> 1"
    and inb: "0 \<le> grid_x grid" "grid_x grid + grid_width grid \<le> colCount s"
  shows "\<exists>c t b. placeLoop grid (Some p) (sampleRoom s grid firstCandidate) = Inr (c, t) \<and>
           fillsWidth grid c \<and> \<not> validPosition c \<and> \<not> onPoint c \<and> attempts c = 1000 \<and>
           stampRoom (board s) c (Num (i + 1)) = Inr b \<and>
           placeRoom (i, grid) s =
             Inr ((snd (randomInt t 1 100))\<lparr>board := b, roomList := roomList s @ [roomOf i c]\<rparr>)"
proof -
  let ?cs = "sampleRoom s grid firstCandidate"
  have a: "sameSetup s (snd ?cs)" by (rule sameSetup_sampleRoom[OF sameSetup_refl[OF rng]])
  have b: "fillsWidth grid (fst ?cs)" by (rule sampleRoom_fillsWidth[OF rng fit narrow])
  have c: "\<not> validPosition (fst ?cs)" "\<not> onPoint (fst ?cs)" "attempts (fst ?cs) \<le> 1000"
    by (simp_all add: sampleRoom_flags firstCandidate_def)
  from placeLoop_exhausts[OF wf fit narrow a b c] obtain c t where
    loop: "placeLoop grid (Some p) ?cs = Inr (c, t)" and same: "sameSetup s t"
    and fw: "fillsWidth grid c" and flags: "\<not> validPosition c" "\<not> onPoint c" "attempts c = 1000"
    by blast
  let ?roll = "randomInt t 1 100"
  from same have rt: "rngOk t" by (simp add: sameSetup_def)
  have "1 \<le> fst ?roll" using randomInt_range[OF rt, of 1 100] by simp
  moreover have "roomLossChance (snd ?roll) = roomLossChance s"
    using same by (simp add: randomInt_fields sameSetup_def)
  ultimately have roll: "roomLossChance (snd ?roll) \<le> fst ?roll" using loss by linarith
  have bt: "board (snd ?roll) = board s" and rl: "roomList (snd ?roll) = roomList s"
    using same by (simp_all add: randomInt_fields sameSetup_def)
  from wf have "int (length (board s)) = colCount s" by (simp add: wfBoard_def)
  with fw inb have "0 \<le> roomX c" "roomX c + roomWidth c \<le> int (length (board s))"
    by (simp_all add: fillsWidth_def)
  from stampRoom_total[OF this] obtain b where st: "stampRoom (board s) c (Num (i + 1)) = Inr b"
    by blast
  have "placeRoom (i, grid) s =
          Inr ((snd ?roll)\<lparr>board := b, roomList := roomList s @ [roomOf i c]\<rparr>)"
    using pt conn loop roll st bt rl flags
    by (simp add: placeRoom_def Let_def bindE_def firstCandidate_def roomOf_def)
  with loop fw flags st show ?thesis by blast
qed

lemma narrow_before:
  "(case beforeRooms (initDungeon narrowOptions (\<lambda>_. 0)) of
      Inl e \<Rightarrow> False
    | Inr s \<Rightarrow>
       (case nthE (gridList s) 0 of
          None \<Rightarrow> False
        | Some grid \<Rightarrow>
            wfBoard s \<and> (case seed s of None \<Rightarrow> False | Some k \<Rightarrow> 0 \<le> k) \<and>
            roomsFit s grid \<and> grid_width grid < minRoomSizeX s + 2 \<and>
            nthE (filter (\<lambda>q. point_gridIndex q = grid_index grid) (pointList s)) 0 \<noteq> None \<and>
            (case filterE (touchesGrid grid) (connectionList s) of
               Inl e \<Rightarrow> False | Inr vs \<Rightarrow> vs \<noteq> []) \<and>
            roomLossChance s \<le> 1 \<and> 0 \<le> grid_x grid \<and>
            grid_x grid + grid_width grid \<le> colCount s))"
  by code_simp

lemma narrow_state:
  obtains s grid p vs where
    "beforeRooms (initDungeon narrowOptions (\<lambda>_. 0)) = Inr s"
    "nthE (gridList s) 0 = Some grid"
    "wfBoard s" "rngOk s" "roomsFit s grid" "grid_width grid < minRoomSizeX s + 2"
    "nthE (filter (\<lambda>q. point_gridIndex q = grid_index grid) (pointList s)) 0 = Some p"
    "filterE (touchesGrid grid) (connectionList s) = Inr vs" "vs \<noteq> []"
    "roomLossChance s \<le> 1" "0 \<le> grid_x grid" "grid_x grid + grid_width grid \<le> colCount s"
proof (cases "beforeRooms (initDungeon narrowOptions (\<lambda>_. 0))")
  case (Inl e)
  with narrow_before show ?thesis by simp
next
  case s: (Inr s)
  show ?thesis
  proof (cases "nthE (gridList s) 0")
    case None
    with s narrow_before show ?thesis by simp
  next
    case g: (Some grid)
    from s g narrow_before have all:
      "wfBoard s \<and> (case seed s of None \<Rightarrow> False | Some k \<Rightarrow> 0 \<le> k) \<and>
       roomsFit s grid \<and> grid_width grid < minRoomSizeX s + 2 \<and>
       nthE (filter (\<lambda>q. point_gridIndex q = grid_index grid) (pointList s)) 0 \<noteq> None \<and>
       (case filterE (touchesGrid grid) (connectionList s) of
          Inl e \<Rightarrow> False | Inr vs \<Rightarrow> vs \<noteq> []) \<and>
       roomLossChance s \<le> 1 \<and> 0 \<le> grid_x grid \<and>
       grid_x grid + grid_width grid \<le> colCount s"
      by simp
    then have rng: "rngOk s" by (auto simp: rngOk_def split: option.splits)
    from all obtain p where
      p: "nthE (filter (\<lambda>q. point_gridIndex q = grid_index grid) (pointList s)) 0 = Some p"
      by auto
    from all obtain vs where
      vs: "filterE (touchesGrid grid) (connectionList s) = Inr vs" "vs \<noteq> []"
      by (cases "filterE (touchesGrid grid) (connectionList s)") auto
    from all s g rng p vs that[of s grid p vs] show ?thesis by blast
  qed
qed

text \<open>
  C4. The claim: when the 1000 attempts of the placement loop are used up, a room is
  drawn only if \<^verbatim>\<open>validPosition\<close> holds for the final candidate, and a candidate for
  which it does not hold is never drawn. In the code every failed test sets
  \<^verbatim>\<open>validPosition\<close> to \<^verbatim>\<open>false\<close> and draws a new candidate, so a loop that ends after 1000
  attempts ends with \<^verbatim>\<open>validPosition\<close> false and with a candidate that was never
  tested; the room is then drawn as soon as the dice roll passes, with no look at
  \<^verbatim>\<open>validPosition\<close>. In a grid less than two columns wider than the smallest room every
  candidate covers the first or the last column of the grid, which the test forbids: the
  loop runs 1000 times, and with a room loss chance of at most 1 the last candidate is
  drawn on the board and added to the room list, although it lies on the border of the
  grid and \<^verbatim>\<open>validPosition\<close> is false.
\<close>

theorem placeRoom_stamps_unchecked_candidate:
  assumes "wfBoard s" and "rngOk s" and "roomsFit s grid"
    and "grid_width grid < minRoomSizeX s + 2"
    and "nthE (filter (\<lambda>q. point_gridIndex q = grid_index grid) (pointList s)) 0 = Some p"
    and "filterE (touchesGrid grid) (connectionList s) = Inr vs" and "vs \<noteq> []"
    and "roomLossChance s \<le> 1"
    and "0 \<le> grid_x grid" and "grid_x grid + grid_width grid \<le> colCount s"
  shows "\<exists>c t s'.
           placeLoop grid (Some p) (sampleRoom s grid firstCandidate) = Inr (c, t) \<and>
           attempts c = 1000 \<and> \<not> validPosition c \<and>
           \<not> (cellAllowed s grid (roomX c) (roomY c) \<and>
              cellAllowed s grid (roomX c + roomWidth c - 1) (roomY c)) \<and>
           placeRoom (i, grid) s = Inr s' \<and>
           roomList s' = roomList s @ [roomOf i c] \<and>
           tileTypeAt (board s') (roomX c) (roomY c) = Inr (Num (i + 1)) \<and>
           tileTypeAt (board s') (roomX c + roomWidth c - 1) (roomY c) = Inr (Num (i + 1))"
proof -
  from placeRoom_narrow[OF assms, of i] obtain c t b where
    loop: "placeLoop grid (Some p) (sampleRoom s grid firstCandidate) = Inr (c, t)"
    and fw: "fillsWidth grid c" and flags: "\<not> validPosition c" "attempts c = 1000"
    and st: "stampRoom (board s) c (Num (i + 1)) = Inr b"
    and pr: "placeRoom (i, grid) s =
               Inr ((snd (randomInt t 1 100))\<lparr>board := b, roomList := roomList s @ [roomOf i c]\<rparr>)"
    by blast
  let ?s' = "(snd (randomInt t 1 100))\<lparr>board := b, roomList := roomList s @ [roomOf i c]\<rparr>"
  from fw have pos: "1 \<le> roomWidth c" "1 \<le> roomHeight c" by (simp_all add: fillsWidth_def)
  have "boardGet b (roomX c) (roomY c) = Inr (Some (Num (i + 1)))"
    using stampRoom_effect[OF st, of "roomX c" "roomY c"] pos by simp
  then have first: "tileTypeAt (board ?s') (roomX c) (roomY c) = Inr (Num (i + 1))"
    by (simp add: tileTypeAt_def bindE_def deref_def)
  have "boardGet b (roomX c + roomWidth c - 1) (roomY c) = Inr (Some (Num (i + 1)))"
    using stampRoom_effect[OF st, of "roomX c + roomWidth c - 1" "roomY c"] pos by simp
  then have last: "tileTypeAt (board ?s') (roomX c + roomWidth c - 1) (roomY c) = Inr (Num (i + 1))"
    by (simp add: tileTypeAt_def bindE_def deref_def)
  have bad: "\<not> (cellAllowed s grid (roomX c) (roomY c) \<and>
                cellAllowed s grid (roomX c + roomWidth c - 1) (roomY c))"
    using fillsWidth_border[OF fw, of s] by blast
  have "roomList ?s' = roomList s @ [roomOf i c]" by simp
  with loop flags bad pr first last show ?thesis by blast
qed

theorem placeRoom_stamps_unchecked_candidate_witness:
  "\<exists>s grid p c t s'.
     beforeRooms (initDungeon narrowOptions (\<lambda>_. 0)) = Inr s \<and>
     nthE (gridList s) 0 = Some grid \<and>
     placeLoop grid (Some p) (sampleRoom s grid firstCandidate) = Inr (c, t) \<and>
     attempts c = 1000 \<and> \<not> validPosition c \<and>
     \<not> (cellAllowed s grid (roomX c) (roomY c) \<and>
        cellAllowed s grid (roomX c + roomWidth c - 1) (roomY c)) \<and>
     placeRoom (0, grid) s = Inr s' \<and>
     roomList s' = roomList s @ [roomOf 0 c] \<and>
     tileTypeAt (board s') (roomX c) (roomY c) = Inr (Num 1) \<and>
     tileTypeAt (board s') (roomX c + roomWidth c - 1) (roomY c) = Inr (Num 1)"
proof -
  from narrow_state obtain s grid p vs where h:
    "beforeRooms (initDungeon narrowOptions (\<lambda>_. 0)) = Inr s"
    "nthE (gridList s) 0 = Some grid"
    "wfBoard s" "rngOk s" "roomsFit s grid" "grid_width grid < minRoomSizeX s + 2"
    "nthE (filter (\<lambda>q. point_gridIndex q = grid_index grid) (pointList s)) 0 = Some p"
    "filterE (touchesGrid grid) (connectionList s) = Inr vs" "vs \<noteq> []"
    "roomLossChance s \<le> 1" "0 \<le> grid_x grid" "grid_x grid + grid_width grid \<le> colCount s"
    by blast
  from placeRoom_stamps_unchecked_candidate[OF h(3-12), of 0] h(1,2)
  show ?thesis by (simp del: ex_simps) blast
qed

section \<open>Validator at the border of the board\<close>

lemma error_is_TypeError: "(e :: error) = TypeError"
  by (cases e) simp

lemma edge_run:
  "(case beforeRooms (initDungeon edgeOptions (\<lambda>_. 0)) of
      Inl e \<Rightarrow> False
    | Inr s \<Rightarrow>
        colCount s = 20 \<and> rowCount s = 20 \<and> maxRoomSizeX s = 4 \<and> maxRoomSizeY s = 3 \<and>
        list_all (\<lambda>g. 4 \<le> grid_width g \<and> 3 \<le> grid_height g)
          (gridList s) \<and>
        tileTypeAt (board s) 19 16 = Inr (Num 10) \<and>
        (case getAdjacentTiles (board s) (19, 16) of Inl e \<Rightarrow> True | Inr ts \<Rightarrow> False)) \<and>
   (case regenerate (initDungeon edgeOptions (\<lambda>_. 0)) of
      Some (Inl e) \<Rightarrow> True | _ \<Rightarrow> False) \<and>
   (case Dungeon edgeOptions (\<lambda>_. 0) of
      Some (Inl e) \<Rightarrow> True | _ \<Rightarrow> False)"
  by code_simp

text \<open>
  C10. The claim: on every board of a generation attempt, for a configuration whose
  largest room is not larger than a grid, every tile that is not a wall has
  \<open>1 \<le> x \<le> colCount - 2\<close> and \<open>1 \<le> y \<le> rowCount - 2\<close>, so that \<^verbatim>\<open>#getAdjacentTiles\<close> never
  reads a column or row that does not exist. With ten grids of four columns on a board
  of twenty columns, rooms of four columns and every connection lost, the first attempt
  of the constructor puts the point of the last grid at \<open>(19, 16)\<close>, in the last column
  of the board: \<^verbatim>\<open>randomInt(grid.x + 4, grid.x)\<close> gives a number from \<open>grid.x + 1\<close> to
  \<open>grid.x + 3\<close>. The validator starts from that point, \<^verbatim>\<open>#getAdjacentTiles\<close> reads
  \<^verbatim>\<open>this.board[20][15]\<close>, and the attempt and the constructor end with a \<^verbatim>\<open>TypeError\<close>.
\<close>

theorem validator_reads_missing_column:
  "\<exists>s. beforeRooms (initDungeon edgeOptions (\<lambda>_. 0)) = Inr s \<and>
       colCount s = 20 \<and> rowCount s = 20 \<and> maxRoomSizeX s = 4 \<and> maxRoomSizeY s = 3 \<and>
       list_all (\<lambda>g. 4 \<le> grid_width g \<and> 3 \<le> grid_height g)
         (gridList s) \<and>
       tileTypeAt (board s) 19 16 = Inr (Num 10) \<and>
       getAdjacentTiles (board s) (19, 16) = Inl TypeError \<and>
       regenerate (initDungeon edgeOptions (\<lambda>_. 0)) = Some (Inl TypeError) \<and>
       Dungeon edgeOptions (\<lambda>_. 0) = Some (Inl TypeError)"
proof -
  have r: "regenerate (initDungeon edgeOptions (\<lambda>_. 0)) = Some (Inl TypeError)"
  proof (cases "regenerate (initDungeon edgeOptions (\<lambda>_. 0))")
    case None
    with edge_run show ?thesis by simp
  next
    case (Some a)
    with edge_run show ?thesis by (cases a) (simp_all add: error_is_TypeError)
  qed
  have d: "Dungeon edgeOptions (\<lambda>_. 0) = Some (Inl TypeError)"
  proof (cases "Dungeon edgeOptions (\<lambda>_. 0)")
    case None
    with edge_run show ?thesis by simp
  next
    case (Some a)
    with edge_run show ?thesis by (cases a) (simp_all add: error_is_TypeError)
  qed
  show ?thesis
  proof (cases "beforeRooms (initDungeon edgeOptions (\<lambda>_. 0))")
    case (Inl e)
    with edge_run show ?thesis by simp
  next
    case s: (Inr s)
    with edge_run have
      "colCount s = 20 \<and> rowCount s = 20 \<and> maxRoomSizeX s = 4 \<and> maxRoomSizeY s = 3 \<and>
       list_all (\<lambda>g. 4 \<le> grid_width g \<and> 3 \<le> grid_height g)
         (gridList s) \<and>
       tileTypeAt (board s) 19 16 = Inr (Num 10)"
      and "case getAdjacentTiles (board s) (19, 16) of Inl e \<Rightarrow> True | Inr ts \<Rightarrow> False"
      by simp_all
    moreover from this(2) have "getAdjacentTiles (board s) (19, 16) = Inl TypeError"
      by (cases "getAdjacentTiles (board s) (19, 16)") (simp_all add: error_is_TypeError)
    ultimately show ?thesis using s r d by blast
  qed
qed

section \<open>Runs on a seed\<close>

text \<open>
  Every step of the generation maps instances that agree up to the results of
  \<^verbatim>\<open>Math.random()\<close> to results that agree in the same way: the seeded branch of
  \<^verbatim>\<open>randomInt\<close> never reads them.
\<close>

lemma sameRun_fields [transfer_rule]:
  "rel_fun sameRun (=) rowCount rowCount"
  "rel_fun sameRun (=) colCount colCount"
  "rel_fun sameRun (=) board board"
  "rel_fun sameRun (=) roomCountMin roomCountMin"
  "rel_fun sameRun (=) roomCountMax roomCountMax"
  "rel_fun sameRun (=) roomCount roomCount"
  "rel_fun sameRun (=) pointLossChance pointLossChance"
  "rel_fun sameRun (=) roomLossChance roomLossChance"
  "rel_fun sameRun (=) randomPathMax randomPathMax"
  "rel_fun sameRun (=) validDungeon validDungeon"
  "rel_fun sameRun (=) minRoomSizeX minRoomSizeX"
  "rel_fun sameRun (=) minRoomSizeY minRoomSizeY"
  "rel_fun sameRun (=) maxRoomSizeX maxRoomSizeX"
  "rel_fun sameRun (=) maxRoomSizeY maxRoomSizeY"
  "rel_fun sameRun (=) gridList gridList"
  "rel_fun sameRun (=) pointList pointList"
  "rel_fun sameRun (=) connectionList connectionList"
  "rel_fun sameRun (=) roomList roomList"
  "rel_fun sameRun (=) specialPoints specialPoints"
  "rel_fun sameRun (=) seed seed"
  by (simp_all add: rel_fun_def sameRun_def)

lemma sameRun_updates [transfer_rule]:
  "rel_fun (=) (rel_fun sameRun sameRun) rowCount_update rowCount_update"
  "rel_fun (=) (rel_fun sameRun sameRun) colCount_update colCount_update"
  "rel_fun (=) (rel_fun sameRun sameRun) board_update board_update"
  "rel_fun (=) (rel_fun sameRun sameRun) roomCountMin_update roomCountMin_update"
  "rel_fun (=) (rel_fun sameRun sameRun) roomCountMax_update roomCountMax_update"
  "rel_fun (=) (rel_fun sameRun sameRun) roomCount_update roomCount_update"
  "rel_fun (=) (rel_fun sameRun sameRun) pointLossChance_update pointLossChance_update"
  "rel_fun (=) (rel_fun sameRun sameRun) roomLossChance_update roomLossChance_update"
  "rel_fun (=) (rel_fun sameRun sameRun) randomPathMax_update randomPathMax_update"
  "rel_fun (=) (rel_fun sameRun sameRun) validDungeon_update validDungeon_update"
  "rel_fun (=) (rel_fun sameRun sameRun) minRoomSizeX_update minRoomSizeX_update"
  "rel_fun (=) (rel_fun sameRun sameRun) minRoomSizeY_update minRoomSizeY_update"
  "rel_fun (=) (rel_fun sameRun sameRun) maxRoomSizeX_update maxRoomSizeX_update"
  "rel_fun (=) (rel_fun sameRun sameRun) maxRoomSizeY_update maxRoomSizeY_update"
  "rel_fun (=) (rel_fun sameRun sameRun) gridList_update gridList_update"
  "rel_fun (=) (rel_fun sameRun sameRun) pointList_update pointList_update"
  "rel_fun (=) (rel_fun sameRun sameRun) connectionList_update connectionList_update"
  "rel_fun (=) (rel_fun sameRun sameRun) roomList_update roomList_update"
  "rel_fun (=) (rel_fun sameRun sameRun) specialPoints_update specialPoints_update"
  by (simp_all add: rel_fun_def sameRun_def)

lemma randomInt_sameRun [transfer_rule]:
  "rel_fun sameRun (rel_fun (=) (rel_fun (=) (rel_prod (=) sameRun))) randomInt randomInt"
  by (auto simp: rel_fun_def sameRun_def randomInt_def Let_def)

lemma pickPoint_sameRun [transfer_rule]:
  "rel_fun (=) (rel_fun sameRun sameRun) pickPoint pickPoint"
  unfolding pickPoint_def by transfer_prover

lemma connectGrids_sameRun [transfer_rule]:
  "rel_fun (=) (rel_fun (=) (rel_fun sameRun sameRun)) connectGrids connectGrids"
  unfolding connectGrids_def by transfer_prover

lemma forUpto_rel:
  assumes "\<And>i s t. A s t \<Longrightarrow> A (body i s) (body' i t)" and "A s t"
  shows "A (forUpto a n body s) (forUpto a n body' t)"
  using assms
proof (induction a n body s arbitrary: t rule: forUpto.induct)
  case (1 i n body s)
  show ?case
  proof (cases "i < n")
    case True
    have "A (forUpto (i + 1) n body (body i s)) (forUpto (i + 1) n body' (body' i t))"
      by (rule "1.IH"[OF True "1.prems"(1) "1.prems"(1)[OF "1.prems"(2)]])
    with True show ?thesis by (simp add: forUpto.simps[of i n])
  next
    case False
    with "1.prems" show ?thesis by (simp add: forUpto.simps[of i n])
  qed
qed

lemma forUpto_transfer [transfer_rule]:
  "rel_fun (=) (rel_fun (=) (rel_fun (rel_fun (=) (rel_fun A A)) (rel_fun A A))) forUpto forUpto"
  apply (intro rel_funI)
  subgoal for a a' n n' body body' s t
    using forUpto_rel[of A body body' s t a n] by (simp add: rel_fun_def)
  done

lemma forUptoE_rel:
  assumes "\<And>i s t. A s t \<Longrightarrow> rel_sum (=) A (body i s) (body' i t)" and "A s t"
  shows "rel_sum (=) A (forUptoE a n body s) (forUptoE a n body' t)"
  using assms
proof (induction a n body s arbitrary: t rule: forUptoE.induct)
  case (1 i n body s)
  show ?case
  proof (cases "i < n")
    case True
    note b = "1.prems"(1)[OF "1.prems"(2), of i]
    show ?thesis
    proof (cases "body i s")
      case (Inl e)
      with b True show ?thesis
        by (cases "body' i t") (simp_all add: forUptoE.simps[of i n])
    next
      case (Inr s1)
      with b obtain t1 where t1: "body' i t = Inr t1" "A s1 t1"
        by (cases "body' i t") simp_all
      have "rel_sum (=) A (forUptoE (i + 1) n body s1) (forUptoE (i + 1) n body' t1)"
        by (rule "1.IH"[OF True Inr "1.prems"(1) t1(2)])
      with True Inr t1 show ?thesis by (simp add: forUptoE.simps[of i n])
    qed
  next
    case False
    with "1.prems" show ?thesis by (simp add: forUptoE.simps[of i n])
  qed
qed

lemma forUptoE_transfer [transfer_rule]:
  "rel_fun (=) (rel_fun (=) (rel_fun (rel_fun (=) (rel_fun A (rel_sum (=) A)))
     (rel_fun A (rel_sum (=) A)))) forUptoE forUptoE"
  apply (intro rel_funI)
  subgoal for a a' n n' body body' s t
    using forUptoE_rel[of A body body' s t a n] by (simp add: rel_fun_def)
  done

lemma forEachE_rel:
  assumes "\<And>a s t. A s t \<Longrightarrow> rel_sum (=) A (body a s) (body' a t)" and "A s t"
  shows "rel_sum (=) A (forEachE body xs s) (forEachE body' xs t)"
  using assms(2)
proof (induction xs arbitrary: s t)
  case Nil
  then show ?case by simp
next
  case (Cons a xs)
  note b = assms(1)[OF Cons.prems, of a]
  show ?case
  proof (cases "body a s")
    case (Inl e)
    with b show ?thesis by (cases "body' a t") simp_all
  next
    case (Inr s1)
    with b obtain t1 where t1: "body' a t = Inr t1" "A s1 t1"
      by (cases "body' a t") simp_all
    with Inr Cons.IH[OF t1(2)] show ?thesis by simp
  qed
qed

lemma forEachE_transfer [transfer_rule]:
  "rel_fun (rel_fun (=) (rel_fun A (rel_sum (=) A))) (rel_fun (=) (rel_fun A (rel_sum (=) A)))
     forEachE forEachE"
  apply (intro rel_funI)
  subgoal for body body' xs xs' s t
    using forEachE_rel[of A body body' s t xs] by (simp add: rel_fun_def)
  done

lemma bindE_transfer [transfer_rule]:
  "rel_fun (rel_sum (=) A) (rel_fun (rel_fun A (rel_sum (=) B)) (rel_sum (=) B)) bindE bindE"
  unfolding bindE_def by transfer_prover


lemma createGrid_sameRun [transfer_rule]:
  "rel_fun sameRun sameRun createGrid createGrid"
  unfolding createGrid_def by transfer_prover

lemma createPaths_sameRun [transfer_rule]:
  "rel_fun sameRun (rel_sum (=) sameRun) createPaths createPaths"
  unfolding createPaths_def by transfer_prover

lemma checkColumn_sameRun:
  "sameRun s t \<Longrightarrow> checkColumn s grid point x y yEnd st = checkColumn t grid point x y yEnd st"
proof (induction s grid point x y yEnd st rule: checkColumn.induct)
  case (1 s grid point x y yEnd st)
  from "1.prems" have f: "colCount t = colCount s" "rowCount t = rowCount s" "board t = board s"
    by (simp_all add: sameRun_def)
  show ?case
    unfolding checkColumn.simps[of s grid point x y] checkColumn.simps[of t grid point x y] f
    using "1.IH" "1.prems"
    by (auto split: sum.splits option.splits)
qed

lemma checkColumn_transfer [transfer_rule]:
  "rel_fun sameRun (=) checkColumn checkColumn"
  by (intro rel_funI ext) (rule checkColumn_sameRun)

lemma checkRoom_sameRun [transfer_rule]:
  "rel_fun sameRun (=) checkRoom checkRoom"
  unfolding checkRoom_def by transfer_prover

lemma sampleRoom_sameRun [transfer_rule]:
  "rel_fun sameRun (rel_fun (=) (rel_fun (=) (rel_prod (=) sameRun))) sampleRoom sampleRoom"
  unfolding sampleRoom_def by transfer_prover

lemma placeLoop_sameRun:
  assumes "fst cs' = fst cs" and "sameRun (snd cs) (snd cs')"
  shows "rel_sum (=) (rel_prod (=) sameRun) (placeLoop grid point cs) (placeLoop grid point cs')"
  using assms
proof (induction grid point cs arbitrary: cs' rule: placeLoop.induct)
  case (1 grid point cs)
  note same = "1.prems"(2) and c = "1.prems"(1)
  have chk: "checkRoom (snd cs') grid point (fst cs') = checkRoom (snd cs) grid point (fst cs)"
    using rel_funD[OF checkRoom_sameRun same] c by simp
  show ?case
  proof (cases "\<not> validPosition (fst cs) \<and> attempts (fst cs) < 1000")
    case False
    have l: "placeLoop grid point cs = Inr cs"
      using False by (subst placeLoop.simps) auto
    have r: "placeLoop grid point cs' = Inr cs'"
      using False c by (subst placeLoop.simps) auto
    show ?thesis unfolding l r using c same by (simp add: rel_prod_sel)
  next
    case True
    then have True': "\<not> validPosition (fst cs') \<and> attempts (fst cs') < 1000" using c by simp
    show ?thesis
    proof (cases "checkRoom (snd cs) grid point (fst cs)")
      case (Inl e)
      have l: "placeLoop grid point cs = Inl e"
        using True Inl by (subst placeLoop.simps) simp
      have r: "placeLoop grid point cs' = Inl e"
        using True' Inl chk by (subst placeLoop.simps) simp
      show ?thesis unfolding l r by simp
    next
      case (Inr st)
      show ?thesis
      proof (cases "\<not> fst st \<or> \<not> snd st")
        case False
        let ?c = "(fst cs)\<lparr>validPosition := fst st, attempts := attempts (fst cs) + 1,
                    onPoint := snd st\<rparr>"
        have l: "placeLoop grid point cs = Inr (?c, snd cs)"
          using True Inr False by (subst placeLoop.simps) simp
        have r: "placeLoop grid point cs' = Inr (?c, snd cs')"
          using True' Inr chk False c by (subst placeLoop.simps) simp
        show ?thesis unfolding l r using same by simp
      next
        case again: True
        let ?c = "(fst cs)\<lparr>validPosition := False, attempts := attempts (fst cs) + 1,
                    onPoint := False\<rparr>"
        have l: "placeLoop grid point cs = placeLoop grid point (sampleRoom (snd cs) grid ?c)"
          using True Inr again by (subst placeLoop.simps) simp
        have r: "placeLoop grid point cs' = placeLoop grid point (sampleRoom (snd cs') grid ?c)"
          using True' Inr chk again c by (subst placeLoop.simps) simp
        have "rel_prod (=) sameRun (sampleRoom (snd cs) grid ?c) (sampleRoom (snd cs') grid ?c)"
          using sampleRoom_sameRun same by (simp add: rel_fun_def)
        then have a: "fst (sampleRoom (snd cs') grid ?c) = fst (sampleRoom (snd cs) grid ?c)"
          and b: "sameRun (snd (sampleRoom (snd cs) grid ?c)) (snd (sampleRoom (snd cs') grid ?c))"
          by (simp_all add: rel_prod_sel)
        show ?thesis unfolding l r by (rule "1.IH"[OF True Inr again a b])
      qed
    qed
  qed
qed

lemma placeLoop_transfer [transfer_rule]:
  "rel_fun (=) (rel_fun (=) (rel_fun (rel_prod (=) sameRun) (rel_sum (=) (rel_prod (=) sameRun))))
     placeLoop placeLoop"
  apply (intro rel_funI)
  subgoal for grid grid' point point' cs cs'
    using placeLoop_sameRun[of cs' cs grid point] by (simp add: rel_prod_sel)
  done

lemma placeRoom_sameRun [transfer_rule]:
  "rel_fun (=) (rel_fun sameRun (rel_sum (=) sameRun)) placeRoom placeRoom"
  unfolding placeRoom_def by transfer_prover

lemma pickInside_sameRun [transfer_rule]:
  "rel_fun (=) (rel_fun sameRun (rel_prod (=) sameRun)) pickInside pickInside"
  unfolding pickInside_def by transfer_prover

lemma promoteRooms_sameRun [transfer_rule]:
  "rel_fun sameRun (rel_fun (=) (rel_fun (=) (rel_sum (=) sameRun))) promoteRooms promoteRooms"
  unfolding promoteRooms_def by transfer_prover

lemma designateRooms_sameRun [transfer_rule]:
  "rel_fun sameRun (rel_sum (=) sameRun) designateRooms designateRooms"
  unfolding designateRooms_def by transfer_prover

lemma createRooms_sameRun [transfer_rule]:
  "rel_fun sameRun (rel_sum (=) sameRun) createRooms createRooms"
  unfolding createRooms_def by transfer_prover

lemma addRandomPath_sameRun [transfer_rule]:
  "rel_fun (=) (rel_fun (=) (rel_fun sameRun (rel_sum (=) sameRun))) addRandomPath addRandomPath"
  unfolding addRandomPath_def by transfer_prover

lemma addRandomPaths_sameRun [transfer_rule]:
  "rel_fun sameRun (rel_sum (=) sameRun) addRandomPaths addRandomPaths"
  unfolding addRandomPaths_def by transfer_prover

lemma validateDungeon_sameRun [transfer_rule]:
  "rel_fun sameRun (rel_option (rel_sum (=) (rel_prod (=) sameRun))) validateDungeon validateDungeon"
  unfolding validateDungeon_def by transfer_prover

lemma regenerate_sameRun [transfer_rule]:
  "rel_fun sameRun (rel_option (rel_sum (=) sameRun)) regenerate regenerate"
  unfolding regenerate_def by transfer_prover

lemma sameRun_sym: "sameRun s t \<Longrightarrow> sameRun t s"
  by (simp add: sameRun_def)

lemma sameRun_loss:
  "sameRun s t \<Longrightarrow> sameRun (s\<lparr>pointLossChance := a, roomLossChance := b\<rparr>)
                          (t\<lparr>pointLossChance := a, roomLossChance := b\<rparr>)"
  by (simp add: sameRun_def)

lemma firstAttempts_sameRun:
  assumes "sameRun (fst ta) (fst ta')" and "snd ta' = snd ta"
  shows "rel_option (rel_sum (=) (rel_prod sameRun (=))) (firstAttempts ta) (firstAttempts ta')"
  using assms
proof (induction ta arbitrary: ta' rule: firstAttempts.induct)
  case (1 ta)
  note same = "1.prems"(1) and n = "1.prems"(2)
  from same have v: "validDungeon (fst ta') = validDungeon (fst ta)" by (simp add: sameRun_def)
  have reg: "rel_option (rel_sum (=) sameRun) (regenerate (fst ta)) (regenerate (fst ta'))"
    by (rule rel_funD[OF regenerate_sameRun same])
  show ?case
  proof (cases "\<not> validDungeon (fst ta) \<and> snd ta < 10")
    case False
    have l: "firstAttempts ta = Some (Inr ta)"
      using False by (subst firstAttempts.simps) auto
    have r: "firstAttempts ta' = Some (Inr ta')"
      using False v n by (subst firstAttempts.simps) auto
    show ?thesis unfolding l r using same n by (simp add: rel_prod_sel)
  next
    case True
    then have True': "\<not> validDungeon (fst ta') \<and> snd ta' < 10" using v n by simp
    show ?thesis
    proof (cases "regenerate (fst ta)")
      case None
      with reg have r: "regenerate (fst ta') = None" by (cases "regenerate (fst ta')") simp_all
      show ?thesis
        using True True' None r
        by (simp add: firstAttempts.simps[of ta] firstAttempts.simps[of ta'])
    next
      case (Some a)
      with reg obtain a' where a': "regenerate (fst ta') = Some a'" "rel_sum (=) sameRun a a'"
        by (cases "regenerate (fst ta')") simp_all
      show ?thesis
      proof (cases a)
        case (Inl e)
        with a'(2) have "a' = Inl e" by (cases a') simp_all
        with True True' Some a'(1) Inl show ?thesis
          by (simp add: firstAttempts.simps[of ta] firstAttempts.simps[of ta'])
      next
        case (Inr d)
        with a'(2) obtain d' where d': "a' = Inr d'" "sameRun d d'" by (cases a') simp_all
        have l: "firstAttempts ta = firstAttempts (d, snd ta + 1)"
          using True Some Inr by (subst firstAttempts.simps) simp
        have r: "firstAttempts ta' = firstAttempts (d', snd ta + 1)"
          using True' a'(1) d'(1) n by (subst firstAttempts.simps) simp
        have "rel_option (rel_sum (=) (rel_prod sameRun (=)))
                (firstAttempts (d, snd ta + 1)) (firstAttempts (d', snd ta + 1))"
          using "1.IH"[OF True _ _, of "Inr d" d "(d', snd ta + 1)"] Some Inr d'(2) by simp
        then show ?thesis unfolding l r .
      qed
    qed
  qed
qed

lemma forcedAttempts_sameRun_returns:
  assumes run: "forcedAttempts s0 n0 = Some y0"
  shows "\<forall>t. sameRun s0 t \<longrightarrow> (\<exists>y'. forcedAttempts t n0 = Some y' \<and> rel_sum (=) sameRun y0 y')"
proof (rule forcedAttempts.raw_induct[where P = "\<lambda>s n y. \<forall>t. sameRun s t \<longrightarrow>
          (\<exists>y'. forcedAttempts t n = Some y' \<and> rel_sum (=) sameRun y y')", OF _ run], goal_cases)
  case (1 ff s n y)
  note IH = 1(1) and eq = 1(2)
  show ?case
  proof (intro allI impI)
    fix t assume same: "sameRun s t"
    then have v: "validDungeon t = validDungeon s"
      and pl: "pointLossChance t = pointLossChance s" and rl: "roomLossChance t = roomLossChance s"
      by (simp_all add: sameRun_def)
    show "\<exists>y'. forcedAttempts t n = Some y' \<and> rel_sum (=) sameRun y y'"
    proof (cases "\<not> validDungeon s \<and> n \<ge> 10")
      case False
      with eq have y: "y = Inr s" by auto
      have "forcedAttempts t n = Some (Inr t)"
        using False v by (subst forcedAttempts.simps) auto
      with y same show ?thesis by simp
    next
      case True
      let ?s = "s\<lparr>pointLossChance := 0, roomLossChance := 0\<rparr>"
      let ?t = "t\<lparr>pointLossChance := 0, roomLossChance := 0\<rparr>"
      have reg: "rel_option (rel_sum (=) sameRun) (regenerate ?s) (regenerate ?t)"
        by (rule rel_funD[OF regenerate_sameRun sameRun_loss[OF same]])
      from eq True obtain a where a: "regenerate ?s = Some a"
        by (cases "regenerate ?s") auto
      with reg obtain a' where a': "regenerate ?t = Some a'" "rel_sum (=) sameRun a a'"
        by (cases "regenerate ?t") simp_all
      show ?thesis
      proof (cases a)
        case (Inl e)
        with a'(2) have "a' = Inl e" by (cases a') simp_all
        moreover from eq True a Inl have "y = Inl e" by simp
        ultimately show ?thesis
          using True v a'(1) by (subst forcedAttempts.simps) simp
      next
        case (Inr d)
        with a'(2) obtain d' where d': "a' = Inr d'" "sameRun d d'" by (cases a') simp_all
        let ?d = "d\<lparr>pointLossChance := pointLossChance s, roomLossChance := roomLossChance s\<rparr>"
        let ?d' = "d'\<lparr>pointLossChance := pointLossChance s, roomLossChance := roomLossChance s\<rparr>"
        from eq True a Inr have l: "ff ?d (n + 1) = Some y" by simp
        from IH[OF l] sameRun_loss[OF d'(2)] obtain y' where
          y': "forcedAttempts ?d' (n + 1) = Some y'" "rel_sum (=) sameRun y y'" by blast
        have "forcedAttempts t n = forcedAttempts ?d' (n + 1)"
          using True v a'(1) d'(1) pl rl by (subst forcedAttempts.simps) simp
        with y' show ?thesis by simp
      qed
    qed
  qed
qed

lemma forcedAttempts_sameRun:
  assumes "sameRun s t"
  shows "rel_option (rel_sum (=) sameRun) (forcedAttempts s n) (forcedAttempts t n)"
proof (cases "forcedAttempts s n")
  case (Some y)
  from forcedAttempts_sameRun_returns[OF Some] assms obtain y' where
    "forcedAttempts t n = Some y'" "rel_sum (=) sameRun y y'" by blast
  with Some show ?thesis by simp
next
  case None
  show ?thesis
  proof (cases "forcedAttempts t n")
    case t: None
    with None show ?thesis by simp
  next
    case (Some y')
    from forcedAttempts_sameRun_returns[OF Some] sameRun_sym[OF assms] obtain y where
      "forcedAttempts s n = Some y" by blast
    with None show ?thesis by simp
  qed
qed

lemma initDungeon_sameRun:
  assumes "opt_seed config = Some k"
  shows "sameRun (initDungeon config rnd1) (initDungeon config rnd2)"
  using assms by (simp add: initDungeon_def Let_def sameRun_def randomInt_def)

lemma Dungeon_sameRun:
  assumes "opt_seed config = Some k"
  shows "rel_option (rel_sum (=) sameRun) (Dungeon config rnd1) (Dungeon config rnd2)"
proof -
  let ?a = "firstAttempts (initDungeon config rnd1, 0)"
  let ?b = "firstAttempts (initDungeon config rnd2, 0)"
  have first: "rel_option (rel_sum (=) (rel_prod sameRun (=))) ?a ?b"
    by (rule firstAttempts_sameRun) (simp_all add: initDungeon_sameRun[OF assms])
  show ?thesis
  proof (cases ?a)
    case None
    with first have "?b = None" by (cases ?b) simp_all
    with None show ?thesis by (simp add: Dungeon_def)
  next
    case (Some a)
    with first obtain b where b: "?b = Some b" "rel_sum (=) (rel_prod sameRun (=)) a b"
      by (cases ?b) simp_all
    show ?thesis
    proof (cases a)
      case (Inl e)
      with b(2) have "b = Inl e" by (cases b) simp_all
      with Some b(1) Inl show ?thesis by (simp add: Dungeon_def)
    next
      case (Inr ta)
      with b(2) obtain tb where tb: "b = Inr tb" "sameRun (fst ta) (fst tb)" "snd tb = snd ta"
        by (cases b) (simp_all add: rel_prod_sel)
      from forcedAttempts_sameRun[OF tb(2), of "snd ta"] Some b(1) Inr tb(1,3)
      show ?thesis by (simp add: Dungeon_def)
    qed
  qed
qed

text \<open>
  C5. Two instances constructed with the same options and a seed produce the same board:
  the constructor of the second either does not return, or throws, or returns, as the
  constructor of the first does, and when both return, the two instances have the same
  board, tile for tile, whatever \<^verbatim>\<open>Math.random()\<close> would have returned in the two runs.
\<close>

theorem Dungeon_seeded_same_board:
  assumes "opt_seed config = Some k"
  shows "map_option (map_sum id board) (Dungeon config rnd1) =
         map_option (map_sum id board) (Dungeon config rnd2)"
proof -
  have "rel_option (rel_sum (=) sameRun) (Dungeon config rnd1) (Dungeon config rnd2)"
    by (rule Dungeon_sameRun[OF assms])
  then show ?thesis
    by (cases "Dungeon config rnd1"; cases "Dungeon config rnd2")
       (auto simp: sameRun_def elim!: rel_sum.cases)
qed

theorem Dungeon_seeded_same_board_witness:
  "map_option (map_sum id board) (Dungeon twoRoomOptions (\<lambda>_. 0)) =
   map_option (map_sum id board) (Dungeon twoRoomOptions (\<lambda>_. 1 / 2))"
  using Dungeon_seeded_same_board[of twoRoomOptions 1 "\<lambda>_. 0" "\<lambda>_. 1 / 2"]
  by (simp add: twoRoomOptions_def)

end
